theory Spec2Isabelle
  imports Main "HOL-Library.AList" "HOL-Library.Char_ord" "HOL-Library.List_Lexorder"
begin

section \<open>Text helpers of the Python source\<close>

text \<open>
  The CPU manager of PowerDeck (\<^verbatim>\<open>src/py_modules/cpu_manager.py\<close>) talks to the kernel
  through text files under \<^verbatim>\<open>/sys/devices/system/cpu\<close>. File contents are modelled as
  \<^typ>\<open>string\<close>, and the handful of \<^verbatim>\<open>str\<close> methods the source applies to them are
  written out here for ASCII text.
\<close>

definition is_space :: "char \<Rightarrow> bool" where
  \<comment> \<open>the ASCII characters for which \<^verbatim>\<open>str.isspace\<close> holds\<close>
  "is_space c \<longleftrightarrow> c \<in> set [CHR 0x09, CHR 0x0A, CHR 0x0B, CHR 0x0C, CHR 0x0D,
                              CHR 0x1C, CHR 0x1D, CHR 0x1E, CHR 0x1F, CHR 0x20]"

definition strip :: "string \<Rightarrow> string" where
  \<comment> \<open>\<^verbatim>\<open>s.strip()\<close>\<close>
  "strip s = rev (dropWhile is_space (rev (dropWhile is_space s)))"

fun split_by :: "(char \<Rightarrow> bool) \<Rightarrow> string \<Rightarrow> string list" where
  "split_by P [] = [[]]"
| "split_by P (x # xs) =
     (if P x then [] # split_by P xs
      else (case split_by P xs of
              [] \<Rightarrow> [[x]]
            | w # ws \<Rightarrow> (x # w) # ws))"

definition split_on :: "char \<Rightarrow> string \<Rightarrow> string list" where
  \<comment> \<open>\<^verbatim>\<open>s.split(c)\<close> for a one-character separator: empty pieces are kept\<close>
  "split_on c s = split_by (\<lambda>x. x = c) s"

definition split_ws :: "string \<Rightarrow> string list" where
  \<comment> \<open>\<^verbatim>\<open>s.split()\<close>: pieces between runs of whitespace, empty pieces dropped\<close>
  "split_ws s = filter (\<lambda>w. w \<noteq> []) (split_by is_space s)"

fun position_in :: "char \<Rightarrow> string \<Rightarrow> nat \<Rightarrow> nat option" where
  "position_in c [] i = None"
| "position_in c (x # xs) i = (if x = c then Some i else position_in c xs (Suc i))"

definition digit_of :: "char \<Rightarrow> nat option" where
  \<comment> \<open>the value of an ASCII decimal digit\<close>
  "digit_of c = position_in c ''0123456789'' 0"

fun digits_val :: "nat \<Rightarrow> string \<Rightarrow> nat option" where
  "digits_val acc [] = Some acc"
| "digits_val acc (c # cs) =
     (case digit_of c of
        None \<Rightarrow> None
      | Some d \<Rightarrow> digits_val (10 * acc + d) cs)"

definition py_nat :: "string \<Rightarrow> nat option" where
  \<comment> \<open>an unsigned decimal literal as \<^verbatim>\<open>int()\<close> reads it: groups of digits, single
      underscores allowed between the groups\<close>
  "py_nat s =
     (let groups = split_on (CHR ''_'') s
      in if list_ex (\<lambda>g. g = []) groups then None else digits_val 0 (concat groups))"

definition py_int :: "string \<Rightarrow> int option" where
  \<comment> \<open>\<^verbatim>\<open>int(s)\<close> on ASCII text; \<open>None\<close> stands for the \<^verbatim>\<open>ValueError\<close>\<close>
  "py_int s =
     (case strip s of
        [] \<Rightarrow> None
      | c # cs \<Rightarrow>
          if c = CHR ''-'' then map_option (\<lambda>n. - int n) (py_nat cs)
          else if c = CHR ''+'' then map_option int (py_nat cs)
          else map_option int (py_nat (c # cs)))"

definition digit_char :: "nat \<Rightarrow> char" where
  "digit_char d = (''0123456789'' ! d)"

fun str_nat :: "nat \<Rightarrow> string" where
  "str_nat n = (if n < 10 then [digit_char n] else str_nat (n div 10) @ [digit_char (n mod 10)])"

declare str_nat.simps [simp del]

definition str_int :: "int \<Rightarrow> string" where
  \<comment> \<open>\<^verbatim>\<open>str(i)\<close>\<close>
  "str_int i = (if i < 0 then CHR ''-'' # str_nat (nat (- i)) else str_nat (nat i))"

section \<open>The sysfs tree\<close>

text \<open>
  Every file the manager opens is one constructor of \<open>path\<close>; the argument is the CPU
  (or cpufreq policy) number that the source formats into the file name, and for the idle
  states also the name of the \<^verbatim>\<open>stateN\<close> directory.
\<close>

datatype path =
    CpuPossible                 \<comment> \<open>\<^verbatim>\<open>cpu/possible\<close>\<close>
  | CpuOnlineList               \<comment> \<open>\<^verbatim>\<open>cpu/online\<close>\<close>
  | CpuOnline nat               \<comment> \<open>\<^verbatim>\<open>cpu/cpuN/online\<close>\<close>
  | TopoCoreId nat              \<comment> \<open>\<^verbatim>\<open>cpu/cpuN/topology/core_id\<close>\<close>
  | TopoPackageId nat           \<comment> \<open>\<^verbatim>\<open>cpu/cpuN/topology/physical_package_id\<close>\<close>
  | TopoSiblings nat            \<comment> \<open>\<^verbatim>\<open>cpu/cpuN/topology/thread_siblings_list\<close>\<close>
  | SmtActive                   \<comment> \<open>\<^verbatim>\<open>cpu/smt/active\<close>\<close>
  | AvailableGovernors nat      \<comment> \<open>\<^verbatim>\<open>cpu/cpuN/cpufreq/scaling_available_governors\<close>\<close>
  | ScalingGovernor nat         \<comment> \<open>\<^verbatim>\<open>cpu/cpuN/cpufreq/scaling_governor\<close>\<close>
  | AvailableEpp nat            \<comment> \<open>\<^verbatim>\<open>cpu/cpuN/cpufreq/energy_performance_available_preferences\<close>\<close>
  | EppPreference nat           \<comment> \<open>\<^verbatim>\<open>cpu/cpuN/cpufreq/energy_performance_preference\<close>\<close>
  | IntelNoTurbo                \<comment> \<open>\<^verbatim>\<open>cpu/intel_pstate/no_turbo\<close>\<close>
  | CpufreqBoost                \<comment> \<open>\<^verbatim>\<open>cpu/cpufreq/boost\<close>\<close>
  | PolicyBoost nat             \<comment> \<open>\<^verbatim>\<open>cpu/cpufreq/policyN/boost\<close>\<close>
  | CpuinfoMinFreq              \<comment> \<open>\<^verbatim>\<open>cpu/cpu0/cpufreq/cpuinfo_min_freq\<close>\<close>
  | CpuinfoMaxFreq              \<comment> \<open>\<^verbatim>\<open>cpu/cpu0/cpufreq/cpuinfo_max_freq\<close>\<close>
  | ScalingMinFreq nat          \<comment> \<open>\<^verbatim>\<open>cpu/cpuN/cpufreq/scaling_min_freq\<close>\<close>
  | ScalingMaxFreq nat          \<comment> \<open>\<^verbatim>\<open>cpu/cpuN/cpufreq/scaling_max_freq\<close>\<close>
  | CStateName nat string       \<comment> \<open>\<^verbatim>\<open>cpu/cpuN/cpuidle/stateK/name\<close>\<close>
  | CStateDesc nat string       \<comment> \<open>\<^verbatim>\<open>cpu/cpuN/cpuidle/stateK/desc\<close>\<close>
  | CStateDisable nat string    \<comment> \<open>\<^verbatim>\<open>cpu/cpuN/cpuidle/stateK/disable\<close>\<close>

text \<open>
  The tree itself: the text of every attribute that exists, which attributes refuse to be
  read or written (the \<^verbatim>\<open>open\<close>, \<^verbatim>\<open>read\<close> or \<^verbatim>\<open>write\<close> raises), the entries of each
  \<^verbatim>\<open>cpuN/cpuidle\<close> directory, the number text of every \<^verbatim>\<open>cpu[0-9]*\<close> directory (what
  follows the last \<^verbatim>\<open>cpu\<close> of its name), and the journal of every write that was attempted, in
  order. A write to an attribute that does not exist fails, as it does under sysfs, where
  a process cannot create files. A write that succeeds replaces the text.
\<close>

record sysfs =
  files :: "path \<Rightarrow> string option"
  rfail :: "path \<Rightarrow> bool"
  wfail :: "path \<Rightarrow> bool"
  cpuidle :: "nat \<Rightarrow> string list option"
  cpu_dirs :: "string list"
  wlog :: "(path \<times> string) list"

definition path_exists :: "sysfs \<Rightarrow> path \<Rightarrow> bool" where
  \<comment> \<open>\<^verbatim>\<open>os.path.exists(p)\<close>\<close>
  "path_exists fs p \<longleftrightarrow> files fs p \<noteq> None"

definition read_text :: "sysfs \<Rightarrow> path \<Rightarrow> string option" where
  \<comment> \<open>\<^verbatim>\<open>open(p, 'r').read()\<close>; \<open>None\<close> stands for the exception\<close>
  "read_text fs p = (if rfail fs p then None else files fs p)"

definition write_text :: "path \<Rightarrow> string \<Rightarrow> sysfs \<Rightarrow> bool \<times> sysfs" where
  \<comment> \<open>\<^verbatim>\<open>open(p, 'w').write(v)\<close>; the flag is \<open>False\<close> when it raises\<close>
  "write_text p v fs =
     (let fs1 = fs\<lparr>wlog := wlog fs @ [(p, v)]\<rparr>
      in if files fs p = None \<or> wfail fs p then (False, fs1)
         else (True, fs1\<lparr>files := (files fs)(p \<mapsto> v)\<rparr>))"

definition read_int :: "sysfs \<Rightarrow> path \<Rightarrow> int option" where
  \<comment> \<open>\<^verbatim>\<open>int(open(p).read().strip())\<close>; \<open>None\<close> stands for any exception\<close>
  "read_int fs p = (case read_text fs p of None \<Rightarrow> None | Some s \<Rightarrow> py_int (strip s))"

section \<open>The manager object\<close>

datatype ScalingDriver = INTEL_PSTATE | INTEL_CPUFREQ | AMD_PSTATE_EPP | AMD_PSTATE | ACPI_CPUFREQ

datatype py_error = ValueError | AttributeError

text \<open>
  The attributes of a \<^verbatim>\<open>CPUManager\<close>. CPU numbers are natural numbers: every one of them
  is read by \<^verbatim>\<open>int()\<close> from a text without a minus sign. \<^verbatim>\<open>_scaling_driver\<close> is the one
  attribute that may be missing from the object: \<open>None\<close> says that no statement has
  assigned it, so that reading it raises \<^verbatim>\<open>AttributeError\<close>; \<open>Some d\<close> is its value
  (an optional driver).
\<close>

record cpu_manager =
  possible_cpus :: "nat list"
  primary_cpus_cache :: "nat list option"
  cpu_siblings_map :: "(nat \<times> nat list) list"
  topology_initialized :: bool
  online_cpus :: "nat list"
  scaling_driver :: "ScalingDriver option option"

definition cpu_of_text :: "string \<Rightarrow> nat option" where
  \<comment> \<open>\<^verbatim>\<open>int(s)\<close> where \<open>s\<close> holds no minus sign\<close>
  "cpu_of_text s = map_option nat (py_int s)"

definition parse_range :: "string \<Rightarrow> nat list option" where
  \<comment> \<open>\<^verbatim>\<open>start, end = map(int, s.split('-')); list(range(start, end + 1))\<close>\<close>
  "parse_range s =
     (case split_on (CHR ''-'') s of
        [a, b] \<Rightarrow>
          (case cpu_of_text a of
             None \<Rightarrow> None
           | Some start \<Rightarrow>
               (case cpu_of_text b of
                  None \<Rightarrow> None
                | Some end \<Rightarrow> Some [start ..< end + 1]))
      | _ \<Rightarrow> None)"

fun parse_cpu_parts :: "string list \<Rightarrow> nat list option" where
  "parse_cpu_parts [] = Some []"
| "parse_cpu_parts (part # parts) =
     (case (if CHR ''-'' \<in> set part then parse_range part
            else map_option (\<lambda>c. [c]) (cpu_of_text part)) of
        None \<Rightarrow> None
      | Some cpus \<Rightarrow> map_option (\<lambda>more. cpus @ more) (parse_cpu_parts parts))"

definition parse_cpu_list :: "string \<Rightarrow> nat list option" where
  \<comment> \<open>the parser of \<^verbatim>\<open>initialize_cpu_topology\<close>: one range, or a comma list, or one number\<close>
  "parse_cpu_list s =
     (if CHR ''-'' \<in> set s then parse_range s
      else if CHR '','' \<in> set s then those (map cpu_of_text (split_on (CHR '','') s))
      else map_option (\<lambda>c. [c]) (cpu_of_text s))"

definition detect_possible_cpus :: "sysfs \<Rightarrow> py_error + nat list" where
  \<comment> \<open>\<^verbatim>\<open>_detect_possible_cpus\<close>; the directory scan of the fallback is outside every
      \<^verbatim>\<open>try\<close>, so its \<^verbatim>\<open>int()\<close> may raise\<close>
  "detect_possible_cpus fs =
     (case (case read_text fs CpuPossible of
              None \<Rightarrow> None
            | Some s \<Rightarrow>
                (let possible_range = strip s
                 in if CHR ''-'' \<in> set possible_range then parse_range possible_range
                    else map_option (\<lambda>c. [c]) (cpu_of_text possible_range))) of
        Some cpus \<Rightarrow> Inr cpus
      | None \<Rightarrow>
          (case those (map cpu_of_text (cpu_dirs fs)) of
             None \<Rightarrow> Inl ValueError
           | Some ids \<Rightarrow> Inr (sort ids)))"

definition get_online_cpus :: "sysfs \<Rightarrow> nat list" where
  \<comment> \<open>\<^verbatim>\<open>CPUManager._get_online_cpus\<close>\<close>
  "get_online_cpus fs =
     (case read_text fs CpuOnlineList of
        None \<Rightarrow> [0]
      | Some s \<Rightarrow>
          (case parse_cpu_parts (split_on (CHR '','') (strip s)) of
             None \<Rightarrow> [0]
           | Some cpus \<Rightarrow> cpus))"

definition CPUManager_init :: "sysfs \<Rightarrow> py_error + cpu_manager" where
  \<comment> \<open>\<^verbatim>\<open>CPUManager.__init__\<close>: it assigns five attributes, and \<^verbatim>\<open>_scaling_driver\<close> is
      not one of them\<close>
  "CPUManager_init fs =
     (case detect_possible_cpus fs of
        Inl e \<Rightarrow> Inl e
      | Inr cpus \<Rightarrow>
          Inr \<lparr>possible_cpus = cpus, primary_cpus_cache = None, cpu_siblings_map = [],
               topology_initialized = False, online_cpus = get_online_cpus fs,
               scaling_driver = None\<rparr>)"

definition update_online_cpus :: "cpu_manager \<Rightarrow> sysfs \<Rightarrow> cpu_manager" where
  "update_online_cpus m fs = m\<lparr>online_cpus := get_online_cpus fs\<rparr>"

section \<open>Frequency limits\<close>

record freq_range =
  min_freq_khz :: int
  max_freq_khz :: int
  min_freq_mhz :: int
  max_freq_mhz :: int

definition get_cpu_frequency_range :: "sysfs \<Rightarrow> freq_range option" where
  "get_cpu_frequency_range fs =
     (if path_exists fs CpuinfoMinFreq \<and> path_exists fs CpuinfoMaxFreq then
        (case read_int fs CpuinfoMinFreq of
           None \<Rightarrow> None
         | Some lo \<Rightarrow>
             (case read_int fs CpuinfoMaxFreq of
                None \<Rightarrow> None
              | Some hi \<Rightarrow>
                  Some \<lparr>min_freq_khz = lo, max_freq_khz = hi,
                        min_freq_mhz = lo div 1000, max_freq_mhz = hi div 1000\<rparr>))
      else None)"

text \<open>
  The body of the \<^verbatim>\<open>try\<close> block that \<^verbatim>\<open>set_cpu_frequency_limits\<close> runs for one CPU whose
  two limit files exist. The result is \<^verbatim>\<open>cpu_success\<close> as it stands when the CPU is
  counted; a failure to read the current limits leaves the block through the outer
  \<^verbatim>\<open>except\<close> before anything is written, and the CPU is not counted.
\<close>

definition write_max_phase :: "nat \<Rightarrow> int \<Rightarrow> int \<Rightarrow> int \<Rightarrow> sysfs \<Rightarrow> bool \<times> sysfs" where
  "write_max_phase cpu current_min current_max mx fs =
     (let fs1 = (if mx < current_max \<and> current_min > mx
                 then snd (write_text (ScalingMinFreq cpu) (str_int mx) fs)
                 else fs)
      in write_text (ScalingMaxFreq cpu) (str_int mx) fs1)"

definition apply_limits_cpu :: "nat \<Rightarrow> int option \<Rightarrow> int option \<Rightarrow> sysfs \<Rightarrow> bool \<times> sysfs" where
  "apply_limits_cpu cpu min_f max_f fs =
     (case read_int fs (ScalingMinFreq cpu) of
        None \<Rightarrow> (False, fs)
      | Some current_min \<Rightarrow>
          (case read_int fs (ScalingMaxFreq cpu) of
             None \<Rightarrow> (False, fs)
           | Some current_max \<Rightarrow>
               (let (cpu_success, fs1) =
                      (case max_f of
                         None \<Rightarrow> (True, fs)
                       | Some mx \<Rightarrow> write_max_phase cpu current_min current_max mx fs)
                in (case min_f of
                      None \<Rightarrow> (cpu_success, fs1)
                    | Some mn \<Rightarrow>
                        if cpu_success then write_text (ScalingMinFreq cpu) (str_int mn) fs1
                        else (cpu_success, fs1)))))"

text \<open>The loop over \<^verbatim>\<open>self._online_cpus\<close>, with its two counters.\<close>

fun limits_loop :: "nat list \<Rightarrow> int option \<Rightarrow> int option \<Rightarrow> nat \<Rightarrow> nat \<Rightarrow> sysfs
    \<Rightarrow> nat \<times> nat \<times> sysfs" where
  "limits_loop [] min_f max_f success_count total_attempts fs =
     (success_count, total_attempts, fs)"
| "limits_loop (cpu # cpus) min_f max_f success_count total_attempts fs =
     (if \<not> (path_exists fs (ScalingMinFreq cpu) \<and> path_exists fs (ScalingMaxFreq cpu))
      then limits_loop cpus min_f max_f success_count total_attempts fs
      else (let (ok, fs1) = apply_limits_cpu cpu min_f max_f fs
            in limits_loop cpus min_f max_f
                 (if ok then success_count + 1 else success_count) (total_attempts + 1) fs1))"

definition set_cpu_frequency_limits ::
    "cpu_manager \<Rightarrow> int option \<Rightarrow> int option \<Rightarrow> sysfs \<Rightarrow> bool \<times> sysfs" where
  "set_cpu_frequency_limits m min_f max_f fs =
     (if min_f = None \<and> max_f = None then (False, fs)
      else (case get_cpu_frequency_range fs of
              None \<Rightarrow> (False, fs)
            | Some r \<Rightarrow>
                if (case min_f of None \<Rightarrow> False
                    | Some mn \<Rightarrow> mn < min_freq_khz r \<or> mn > max_freq_khz r) then (False, fs)
                else if (case max_f of None \<Rightarrow> False
                    | Some mx \<Rightarrow> mx < min_freq_khz r \<or> mx > max_freq_khz r) then (False, fs)
                else if (case (min_f, max_f) of (Some mn, Some mx) \<Rightarrow> mn > mx | _ \<Rightarrow> False)
                  then (False, fs)
                else (let (success_count, total_attempts, fs1) =
                            limits_loop (online_cpus m) min_f max_f 0 0 fs
                      in (success_count = total_attempts \<and> total_attempts > 0, fs1))))"

section \<open>Frequency limits, with every access recorded\<close>

text \<open>
  In the definitions above a read is the application of a function to the tree and leaves
  no trace. To speak of the reads themselves, \<^verbatim>\<open>set_cpu_frequency_limits\<close> and what it calls
  are written out once more with a journal of accesses passed along: every
  \<^verbatim>\<open>os.path.exists\<close> appends \<open>Exists\<close>, every \<^verbatim>\<open>open(p, 'r')\<close> appends \<open>Read\<close>, also
  when it raises. The second operand of \<^verbatim>\<open>and\<close> is evaluated only when the first is true.
  Writes are journalled in the tree as before. Forgetting the journal of accesses gives
  back the definitions above (\<open>set_cpu_frequency_limits_io_forget\<close>).
\<close>

datatype access = Exists path | Read path

definition ask_exists :: "sysfs \<Rightarrow> path \<Rightarrow> access list \<Rightarrow> bool \<times> access list" where
  "ask_exists fs p al = (path_exists fs p, al @ [Exists p])"

definition ask_int :: "sysfs \<Rightarrow> path \<Rightarrow> access list \<Rightarrow> int option \<times> access list" where
  "ask_int fs p al = (read_int fs p, al @ [Read p])"

definition ask_both_exist :: "sysfs \<Rightarrow> path \<Rightarrow> path \<Rightarrow> access list \<Rightarrow> bool \<times> access list" where
  "ask_both_exist fs p q al =
     (let (e1, al1) = ask_exists fs p al
      in if e1 then ask_exists fs q al1 else (False, al1))"

definition get_cpu_frequency_range_io :: "sysfs \<Rightarrow> access list \<Rightarrow> freq_range option \<times> access list" where
  "get_cpu_frequency_range_io fs al =
     (let (both, al1) = ask_both_exist fs CpuinfoMinFreq CpuinfoMaxFreq al
      in if both then
           (let (min_freq, al2) = ask_int fs CpuinfoMinFreq al1
            in case min_freq of
                 None \<Rightarrow> (None, al2)
               | Some lo \<Rightarrow>
                   (let (max_freq, al3) = ask_int fs CpuinfoMaxFreq al2
                    in case max_freq of
                         None \<Rightarrow> (None, al3)
                       | Some hi \<Rightarrow>
                           (Some \<lparr>min_freq_khz = lo, max_freq_khz = hi,
                                  min_freq_mhz = lo div 1000, max_freq_mhz = hi div 1000\<rparr>, al3)))
         else (None, al1))"

definition apply_limits_cpu_io ::
    "nat \<Rightarrow> int option \<Rightarrow> int option \<Rightarrow> sysfs \<Rightarrow> access list \<Rightarrow> bool \<times> sysfs \<times> access list" where
  "apply_limits_cpu_io cpu min_f max_f fs al =
     (let (cur_min, al1) = ask_int fs (ScalingMinFreq cpu) al
      in case cur_min of
           None \<Rightarrow> (False, fs, al1)
         | Some current_min \<Rightarrow>
             (let (cur_max, al2) = ask_int fs (ScalingMaxFreq cpu) al1
              in case cur_max of
                   None \<Rightarrow> (False, fs, al2)
                 | Some current_max \<Rightarrow>
                     (let (cpu_success, fs1) =
                            (case max_f of
                               None \<Rightarrow> (True, fs)
                             | Some mx \<Rightarrow> write_max_phase cpu current_min current_max mx fs)
                      in case min_f of
                           None \<Rightarrow> (cpu_success, fs1, al2)
                         | Some mn \<Rightarrow>
                             if cpu_success
                             then (let (ok, fs2) = write_text (ScalingMinFreq cpu) (str_int mn) fs1
                                   in (ok, fs2, al2))
                             else (cpu_success, fs1, al2))))"

fun limits_loop_io :: "nat list \<Rightarrow> int option \<Rightarrow> int option \<Rightarrow> nat \<Rightarrow> nat \<Rightarrow> sysfs
    \<Rightarrow> access list \<Rightarrow> nat \<times> nat \<times> sysfs \<times> access list" where
  "limits_loop_io [] min_f max_f success_count total_attempts fs al =
     (success_count, total_attempts, fs, al)"
| "limits_loop_io (cpu # cpus) min_f max_f success_count total_attempts fs al =
     (let (both, al1) = ask_both_exist fs (ScalingMinFreq cpu) (ScalingMaxFreq cpu) al
      in if \<not> both
         then limits_loop_io cpus min_f max_f success_count total_attempts fs al1
         else (let (ok, fs1, al2) = apply_limits_cpu_io cpu min_f max_f fs al1
               in limits_loop_io cpus min_f max_f
                    (if ok then success_count + 1 else success_count) (total_attempts + 1)
                    fs1 al2))"

definition set_cpu_frequency_limits_io ::
    "cpu_manager \<Rightarrow> int option \<Rightarrow> int option \<Rightarrow> sysfs \<Rightarrow> access list
      \<Rightarrow> bool \<times> sysfs \<times> access list" where
  "set_cpu_frequency_limits_io m min_f max_f fs al =
     (if min_f = None \<and> max_f = None then (False, fs, al)
      else (let (freq_range, al1) = get_cpu_frequency_range_io fs al
            in case freq_range of
                 None \<Rightarrow> (False, fs, al1)
               | Some r \<Rightarrow>
                   if (case min_f of None \<Rightarrow> False
                       | Some mn \<Rightarrow> mn < min_freq_khz r \<or> mn > max_freq_khz r)
                     then (False, fs, al1)
                   else if (case max_f of None \<Rightarrow> False
                       | Some mx \<Rightarrow> mx < min_freq_khz r \<or> mx > max_freq_khz r)
                     then (False, fs, al1)
                   else if (case (min_f, max_f) of (Some mn, Some mx) \<Rightarrow> mn > mx | _ \<Rightarrow> False)
                     then (False, fs, al1)
                   else (let (success_count, total_attempts, fs1, al2) =
                               limits_loop_io (online_cpus m) min_f max_f 0 0 fs al1
                         in (success_count = total_attempts \<and> total_attempts > 0, fs1, al2))))"

definition forget_accesses :: "'a \<times> 'b \<times> access list \<Rightarrow> 'a \<times> 'b" where
  "forget_accesses r = (fst r, fst (snd r))"

section \<open>Governor and energy-performance preference\<close>

definition get_available_governors :: "cpu_manager \<Rightarrow> sysfs \<Rightarrow> string list" where
  "get_available_governors m fs =
     (case online_cpus m of
        [] \<Rightarrow> []
      | c # _ \<Rightarrow>
          if path_exists fs (AvailableGovernors c) then
            (case read_text fs (AvailableGovernors c) of
               None \<Rightarrow> []
             | Some s \<Rightarrow> rev (split_ws (strip s)))
          else [])"

definition get_current_governor :: "cpu_manager \<Rightarrow> sysfs \<Rightarrow> string option" where
  "get_current_governor m fs =
     (case online_cpus m of
        [] \<Rightarrow> None
      | c # _ \<Rightarrow>
          if path_exists fs (ScalingGovernor c) then
            (case read_text fs (ScalingGovernor c) of
               None \<Rightarrow> None
             | Some s \<Rightarrow> Some (strip s))
          else None)"

text \<open>
  The loop shared in shape by \<^verbatim>\<open>set_governor\<close> and \<^verbatim>\<open>set_epp\<close>: for every online CPU
  whose attribute exists, write the value and count the writes that did not raise. The
  handlers of \<^verbatim>\<open>set_epp\<close> tell a busy device (errno 16) from other errors only in the
  message they log.
\<close>

fun write_each :: "(nat \<Rightarrow> path) \<Rightarrow> string \<Rightarrow> nat list \<Rightarrow> nat \<Rightarrow> sysfs \<Rightarrow> nat \<times> sysfs" where
  "write_each file v [] success_count fs = (success_count, fs)"
| "write_each file v (cpu # cpus) success_count fs =
     (if path_exists fs (file cpu) then
        (let (ok, fs1) = write_text (file cpu) v fs
         in write_each file v cpus (if ok then success_count + 1 else success_count) fs1)
      else write_each file v cpus success_count fs)"

definition set_governor :: "cpu_manager \<Rightarrow> string \<Rightarrow> sysfs \<Rightarrow> bool \<times> sysfs" where
  \<comment> \<open>\<^verbatim>\<open>CPUManager.set_governor\<close>\<close>
  "set_governor m governor fs =
     (if governor \<notin> set (get_available_governors m fs) then (False, fs)
      else (let (success_count, fs1) = write_each ScalingGovernor governor (online_cpus m) 0 fs
            in (success_count > 0, fs1)))"

definition get_available_epp_options :: "cpu_manager \<Rightarrow> sysfs \<Rightarrow> string list" where
  "get_available_epp_options m fs =
     (case online_cpus m of
        [] \<Rightarrow> []
      | c # _ \<Rightarrow>
          if path_exists fs (AvailableEpp c) then
            (case read_text fs (AvailableEpp c) of
               None \<Rightarrow> []
             | Some s \<Rightarrow> rev (remove1 ''default'' (split_ws (strip s))))
          else [])"

definition set_epp :: "cpu_manager \<Rightarrow> string \<Rightarrow> sysfs \<Rightarrow> py_error + bool \<times> sysfs" where
  \<comment> \<open>\<^verbatim>\<open>CPUManager.set_epp\<close>; the test of the governor and the driver stands before the
      \<^verbatim>\<open>try\<close>, and \<^verbatim>\<open>and\<close> reads \<^verbatim>\<open>self._scaling_driver\<close> only when the governor is
      \<^verbatim>\<open>performance\<close>\<close>
  "set_epp m epp fs =
     (if epp \<notin> set (get_available_epp_options m fs) then Inr (False, fs)
      else (case (if get_current_governor m fs = Some ''performance'' then
                    (case scaling_driver m of
                       None \<Rightarrow> Inl AttributeError
                     | Some d \<Rightarrow> Inr (d \<in> set [Some AMD_PSTATE_EPP, Some INTEL_PSTATE]))
                  else Inr False) of
              Inl e \<Rightarrow> Inl e
            | Inr blocked \<Rightarrow>
                if blocked then Inr (False, fs)
                else (let (success_count, fs1) =
                            write_each EppPreference epp (online_cpus m) 0 fs
                      in Inr (success_count > 0, fs1))))"

section \<open>The plugin's governor entry point\<close>

text \<open>
  \<^verbatim>\<open>Plugin.set_governor\<close> of \<^verbatim>\<open>src/main.py\<close> forwards to \<^verbatim>\<open>Plugin.set_power_governor\<close>,
  which works on sysfs by itself. Of the plugin object only the \<^verbatim>\<open>governor\<close> entry of
  \<^verbatim>\<open>current_profile\<close> matters here. Of the two \<^verbatim>\<open>get_online_cpus\<close> methods the class body
  defines, the later one is the method the class ends up with.
\<close>

definition plugin_get_online_cpus :: "sysfs \<Rightarrow> nat list" where
  "plugin_get_online_cpus fs =
     (if path_exists fs CpuOnlineList then
        (case read_text fs CpuOnlineList of
           None \<Rightarrow> [0 ..< 16]
         | Some s \<Rightarrow>
             (case parse_cpu_parts (split_on (CHR '','') (strip s)) of
                None \<Rightarrow> [0 ..< 16]
              | Some cpus \<Rightarrow> cpus))
      else [0 ..< 16])"

definition governor_mapping :: "(string \<times> string) list" where
  "governor_mapping =
     [(''balanced'', ''powersave''), (''ondemand'', ''powersave''),
      (''conservative'', ''powersave''), (''schedutil'', ''powersave'')]"

definition fallback_governor :: "string list \<Rightarrow> string \<Rightarrow> string" where
  \<comment> \<open>\<^verbatim>\<open>target_governor\<close> as \<^verbatim>\<open>set_power_governor\<close> computes it\<close>
  "fallback_governor available_governors governor =
     (if governor \<notin> set available_governors then
        (case map_of governor_mapping governor of
           Some g \<Rightarrow> g
         | None \<Rightarrow> ''powersave'')
      else governor)"

fun write_all :: "(nat \<Rightarrow> path) \<Rightarrow> string \<Rightarrow> nat list \<Rightarrow> bool \<Rightarrow> sysfs \<Rightarrow> bool \<times> sysfs" where
  "write_all file v [] success fs = (success, fs)"
| "write_all file v (cpu # cpus) success fs =
     (if path_exists fs (file cpu) then
        (let (ok, fs1) = write_text (file cpu) v fs
         in write_all file v cpus (success \<and> ok) fs1)
      else write_all file v cpus success fs)"

definition plugin_available_governors :: "sysfs \<Rightarrow> string list option" where
  \<comment> \<open>the first block of \<^verbatim>\<open>set_power_governor\<close>: the governors CPU 0 offers, or the fixed
      pair when the file is absent; \<open>None\<close> when reading raises, which the outer handler
      turns into \<^verbatim>\<open>return False\<close>\<close>
  "plugin_available_governors fs =
     (if path_exists fs (AvailableGovernors 0) then
        map_option (\<lambda>s. split_ws (strip s)) (read_text fs (AvailableGovernors 0))
      else Some [''performance'', ''powersave''])"

definition set_power_governor ::
    "string option \<Rightarrow> string \<Rightarrow> sysfs \<Rightarrow> bool \<times> string option \<times> sysfs" where
  \<comment> \<open>the first argument and the second component of the result are
      \<^verbatim>\<open>current_profile["governor"]\<close> before and after\<close>
  "set_power_governor profile_governor governor fs =
     (case plugin_available_governors fs of
        None \<Rightarrow> (False, profile_governor, fs)
      | Some available_governors \<Rightarrow>
          (let target_governor = fallback_governor available_governors governor;
               (success, fs1) =
                  write_all ScalingGovernor target_governor (plugin_get_online_cpus fs) True fs
           in if success then (True, Some target_governor, fs1)
              else (False, profile_governor, fs1)))"

definition plugin_set_governor ::
    "string option \<Rightarrow> string \<Rightarrow> sysfs \<Rightarrow> bool \<times> string option \<times> sysfs" where
  \<comment> \<open>\<^verbatim>\<open>Plugin.set_governor\<close>\<close>
  "plugin_set_governor profile_governor governor fs =
     set_power_governor profile_governor governor fs"

section \<open>Boost\<close>

definition boost_text :: "bool \<Rightarrow> string" where
  \<comment> \<open>\<^verbatim>\<open>"1" if enabled else "0"\<close>\<close>
  "boost_text enabled = (if enabled then ''1'' else ''0'')"

fun per_cpu_boost_loop :: "string \<Rightarrow> nat list \<Rightarrow> nat \<Rightarrow> nat \<Rightarrow> sysfs \<Rightarrow> nat \<times> nat \<times> sysfs" where
  "per_cpu_boost_loop v [] success_count total_attempts fs =
     (success_count, total_attempts, fs)"
| "per_cpu_boost_loop v (cpu # cpus) success_count total_attempts fs =
     (if path_exists fs (PolicyBoost cpu) then
        (let (ok, fs1) = write_text (PolicyBoost cpu) v fs
         in per_cpu_boost_loop v cpus
              (if ok then success_count + 1 else success_count) (total_attempts + 1) fs1)
      else per_cpu_boost_loop v cpus success_count total_attempts fs)"

definition enforce_boost_limits :: "cpu_manager \<Rightarrow> bool \<Rightarrow> sysfs \<Rightarrow> sysfs" where
  \<comment> \<open>the block under \<^verbatim>\<open>if boost_success:\<close>; the result of the limit call is only logged\<close>
  "enforce_boost_limits m enabled fs =
     (case get_cpu_frequency_range fs of
        None \<Rightarrow> fs
      | Some r \<Rightarrow>
          if enabled then
            snd (set_cpu_frequency_limits m
                   (Some (min_freq_khz r)) (Some (max_freq_khz r)) fs)
          else
            (let base_freq = max_freq_khz r
             in snd (set_cpu_frequency_limits m
                       (Some (min_freq_khz r)) (Some base_freq) fs)))"

definition switch_boost :: "cpu_manager \<Rightarrow> bool \<Rightarrow> sysfs \<Rightarrow> bool \<times> sysfs" where
  \<comment> \<open>\<^verbatim>\<open>set_cpu_boost\<close> down to the comment \<^verbatim>\<open># Enforce frequency limits\<close>: the flag is
      \<^verbatim>\<open>boost_success\<close>; it is false as well where the source has already returned false
      (a per-policy write failed) or has left the \<^verbatim>\<open>try\<close> by an exception (the write to
      \<^verbatim>\<open>no_turbo\<close> is not guarded), both of which end in \<^verbatim>\<open>return False\<close>\<close>
  "switch_boost m enabled fs =
     (let (intel_raised, boost0, fs0) =
            (if path_exists fs IntelNoTurbo then
               (let (ok, f) = write_text IntelNoTurbo (if enabled then ''0'' else ''1'') fs
                in (\<not> ok, ok, f))
             else (False, False, fs))
      in if intel_raised then (False, fs0)
         else
           (let (boost1, fs1) =
                  (if path_exists fs0 CpufreqBoost then
                     (let (ok, f) = write_text CpufreqBoost (boost_text enabled) fs0
                      in (if ok then True else boost0, f))
                   else (boost0, fs0))
            in if boost1 then (True, fs1)
               else
                 (let (success_count, total_attempts, fs2) =
                        per_cpu_boost_loop (boost_text enabled) (online_cpus m) 0 0 fs1
                  in (total_attempts > 0 \<and> success_count = total_attempts, fs2))))"

definition set_cpu_boost :: "cpu_manager \<Rightarrow> bool \<Rightarrow> sysfs \<Rightarrow> bool \<times> sysfs" where
  "set_cpu_boost m enabled fs =
     (let (boost_success, fs1) = switch_boost m enabled fs
      in if boost_success then (True, enforce_boost_limits m enabled fs1)
         else (False, fs1))"

section \<open>Topology discovery\<close>

definition read_cpu_list :: "sysfs \<Rightarrow> path \<Rightarrow> nat list option" where
  \<comment> \<open>read a file and parse it as \<^verbatim>\<open>initialize_cpu_topology\<close> does; \<open>None\<close> stands for
      any exception on the way\<close>
  "read_cpu_list fs p =
     (case read_text fs p of None \<Rightarrow> None | Some s \<Rightarrow> parse_cpu_list (strip s))"

fun bring_online_loop :: "nat list \<Rightarrow> nat list \<Rightarrow> nat list \<Rightarrow> sysfs \<Rightarrow> nat list \<times> sysfs" where
  "bring_online_loop [] original cpus_brought_online fs = (cpus_brought_online, fs)"
| "bring_online_loop (cpu_id # rest) original cpus_brought_online fs =
     (if cpu_id = 0 then bring_online_loop rest original cpus_brought_online fs
      else if cpu_id \<notin> set original then
        (let (ok, fs1) = write_text (CpuOnline cpu_id) ''1'' fs
         in bring_online_loop rest original
              (if ok then cpus_brought_online @ [cpu_id] else cpus_brought_online) fs1)
      else bring_online_loop rest original cpus_brought_online fs)"

definition read_topology_cpu ::
    "sysfs \<Rightarrow> nat \<Rightarrow> ((int \<times> int) \<times> nat) list \<Rightarrow> (nat \<times> nat list) list
      \<Rightarrow> ((int \<times> int) \<times> nat) list \<times> (nat \<times> nat list) list" where
  \<comment> \<open>one round of the loop that fills \<^verbatim>\<open>physical_cores\<close> and the sibling map; an exception
      leaves the round with what was stored before it\<close>
  "read_topology_cpu fs cpu_id physical_cores siblings_map =
     (if path_exists fs (TopoCoreId cpu_id) \<and> path_exists fs (TopoPackageId cpu_id) then
        (case read_int fs (TopoCoreId cpu_id) of
           None \<Rightarrow> (physical_cores, siblings_map)
         | Some core_id \<Rightarrow>
             (case read_int fs (TopoPackageId cpu_id) of
                None \<Rightarrow> (physical_cores, siblings_map)
              | Some pkg_id \<Rightarrow>
                  (let phys_core_key = (pkg_id, core_id);
                       physical_cores1 =
                         (if map_of physical_cores phys_core_key = None
                          then physical_cores @ [(phys_core_key, cpu_id)]
                          else physical_cores)
                   in if path_exists fs (TopoSiblings cpu_id) then
                        (case read_cpu_list fs (TopoSiblings cpu_id) of
                           None \<Rightarrow> (physical_cores1, siblings_map)
                         | Some siblings \<Rightarrow>
                             (physical_cores1, AList.update cpu_id siblings siblings_map))
                      else (physical_cores1, siblings_map))))
      else (physical_cores, siblings_map))"

fun read_topology_loop ::
    "sysfs \<Rightarrow> nat list \<Rightarrow> ((int \<times> int) \<times> nat) list \<Rightarrow> (nat \<times> nat list) list
      \<Rightarrow> ((int \<times> int) \<times> nat) list \<times> (nat \<times> nat list) list" where
  "read_topology_loop fs [] physical_cores siblings_map = (physical_cores, siblings_map)"
| "read_topology_loop fs (cpu_id # rest) physical_cores siblings_map =
     (let (physical_cores1, siblings_map1) =
            read_topology_cpu fs cpu_id physical_cores siblings_map
      in read_topology_loop fs rest physical_cores1 siblings_map1)"

fun restore_loop :: "nat list \<Rightarrow> nat list \<Rightarrow> sysfs \<Rightarrow> sysfs" where
  "restore_loop [] original fs = fs"
| "restore_loop (cpu_id # rest) original fs =
     (if cpu_id \<notin> set original
      then restore_loop rest original (snd (write_text (CpuOnline cpu_id) ''0'' fs))
      else restore_loop rest original fs)"

definition initialize_cpu_topology :: "cpu_manager \<Rightarrow> sysfs \<Rightarrow> cpu_manager \<times> sysfs" where
  \<comment> \<open>every statement that can raise sits in an inner \<^verbatim>\<open>try\<close> of its own, so the outer
      handler with its fixed fallback lists is never entered\<close>
  "initialize_cpu_topology m fs =
     (if topology_initialized m then (m, fs)
      else
        (let original_online_cpus =
               (case read_cpu_list fs CpuOnlineList of None \<Rightarrow> [0] | Some cpus \<Rightarrow> cpus);
             (cpus_brought_online, fs1) =
               bring_online_loop (possible_cpus m) original_online_cpus [] fs;
             (physical_cores, siblings_map) = read_topology_loop fs1 (possible_cpus m) [] [];
             fs2 = restore_loop cpus_brought_online original_online_cpus fs1
         in (m\<lparr>cpu_siblings_map := siblings_map,
                primary_cpus_cache := Some (sort (map snd physical_cores)),
                topology_initialized := True\<rparr>, fs2)))"

definition get_primary_cpus_by_physical_core ::
    "cpu_manager \<Rightarrow> sysfs \<Rightarrow> nat list \<times> cpu_manager \<times> sysfs" where
  "get_primary_cpus_by_physical_core m fs =
     (let (m1, fs1) = (if \<not> topology_initialized m then initialize_cpu_topology m fs else (m, fs))
      in (case primary_cpus_cache m1 of
            None \<Rightarrow> ([0], m1, fs1)
          | Some cache \<Rightarrow> (if cache = [] then [0] else cache, m1, fs1)))"

definition get_cpu_siblings :: "cpu_manager \<Rightarrow> sysfs \<Rightarrow> nat \<Rightarrow> nat list \<times> cpu_manager \<times> sysfs" where
  "get_cpu_siblings m fs cpu_id =
     (let (m1, fs1) = (if \<not> topology_initialized m then initialize_cpu_topology m fs else (m, fs))
      in (case map_of (cpu_siblings_map m1) cpu_id of
            None \<Rightarrow> ([cpu_id], m1, fs1)
          | Some siblings \<Rightarrow> (siblings, m1, fs1)))"

definition is_smt_enabled :: "cpu_manager \<Rightarrow> sysfs \<Rightarrow> bool \<times> cpu_manager \<times> sysfs" where
  "is_smt_enabled m fs =
     (case read_text fs SmtActive of
        Some s \<Rightarrow> (strip s = ''1'', m, fs)
      | None \<Rightarrow>
          (let (m1, fs1) =
                 (if \<not> topology_initialized m then initialize_cpu_topology m fs else (m, fs))
           in (list_ex (\<lambda>siblings. length siblings > 1)
                 (filter (\<lambda>siblings. siblings \<noteq> []) (map snd (cpu_siblings_map m1))), m1, fs1)))"

section \<open>Idle-state preparation\<close>

record cstate =
  state :: string
  name :: string
  description :: string

fun read_cstates :: "sysfs \<Rightarrow> nat \<Rightarrow> string list \<Rightarrow> cstate list" where
  "read_cstates fs cpu [] = []"
| "read_cstates fs cpu (state_dir # dirs) =
     (if take 5 state_dir = ''state'' then
        (case read_text fs (CStateName cpu state_dir) of
           None \<Rightarrow> read_cstates fs cpu dirs
         | Some n \<Rightarrow>
             (case read_text fs (CStateDesc cpu state_dir) of
                None \<Rightarrow> read_cstates fs cpu dirs
              | Some d \<Rightarrow>
                  \<lparr>state = state_dir, name = strip n, description = strip d\<rparr>
                    # read_cstates fs cpu dirs))
      else read_cstates fs cpu dirs)"

definition get_available_cstates :: "sysfs \<Rightarrow> nat \<Rightarrow> cstate list" where
  \<comment> \<open>the \<^verbatim>\<open>path\<close> entry of the source's dictionaries is the directory, which \<open>state\<close>
      and the CPU number determine\<close>
  "get_available_cstates fs cpu =
     (case cpuidle fs cpu of
        None \<Rightarrow> []
      | Some entries \<Rightarrow> read_cstates fs cpu (sort entries))"

definition preferred_states :: "string list" where
  "preferred_states = [''C10'', ''C9'', ''C8'', ''C7'', ''C6'', ''C3'', ''C2'', ''C1'']"

definition get_deepest_available_cstate :: "sysfs \<Rightarrow> nat \<Rightarrow> string option" where
  "get_deepest_available_cstate fs cpu =
     (let available_states = get_available_cstates fs cpu
      in if available_states = [] then None
         else (case find (\<lambda>preferred. list_ex (\<lambda>s. name s = preferred) available_states)
                      preferred_states of
                 Some preferred \<Rightarrow> Some preferred
               | None \<Rightarrow> Some (name (last available_states))))"

fun disable_deeper_loop ::
    "nat \<Rightarrow> cstate list \<Rightarrow> (path \<times> string) list \<Rightarrow> sysfs \<Rightarrow> (path \<times> string) list \<times> sysfs" where
  "disable_deeper_loop cpu [] deeper_states fs = (deeper_states, fs)"
| "disable_deeper_loop cpu (s # rest) deeper_states fs =
     (if name s \<in> set [''C6'', ''C7'', ''C8'', ''C9'', ''C10'']
         \<and> path_exists fs (CStateDisable cpu (state s)) then
        (case read_text fs (CStateDisable cpu (state s)) of
           None \<Rightarrow> disable_deeper_loop cpu rest deeper_states fs
         | Some current_disabled \<Rightarrow>
             disable_deeper_loop cpu rest
               (deeper_states @ [(CStateDisable cpu (state s), strip current_disabled)])
               (snd (write_text (CStateDisable cpu (state s)) ''1'' fs)))
      else disable_deeper_loop cpu rest deeper_states fs)"

definition pulse_min_frequency :: "nat \<Rightarrow> sysfs \<Rightarrow> sysfs" where
  \<comment> \<open>the \<^verbatim>\<open>try\<close> block that holds the maximum at the minimum for 100 ms; the first
      exception ends it\<close>
  "pulse_min_frequency cpu fs =
     (if path_exists fs (ScalingMinFreq cpu) \<and> path_exists fs (ScalingMaxFreq cpu) then
        (case read_text fs (ScalingMinFreq cpu) of
           None \<Rightarrow> fs
         | Some original_min_freq \<Rightarrow>
             (case read_text fs (ScalingMaxFreq cpu) of
                None \<Rightarrow> fs
              | Some original_max_freq \<Rightarrow>
                  (let (ok, fs1) = write_text (ScalingMaxFreq cpu) (strip original_min_freq) fs
                   in if ok
                      then snd (write_text (ScalingMaxFreq cpu) (strip original_max_freq) fs1)
                      else fs1)))
      else fs)"

fun restore_deeper_loop :: "(path \<times> string) list \<Rightarrow> sysfs \<Rightarrow> sysfs" where
  "restore_deeper_loop [] fs = fs"
| "restore_deeper_loop ((disable_path, original_state) # rest) fs =
     restore_deeper_loop rest (snd (write_text disable_path original_state fs))"

definition force_cpu_to_cstate :: "nat \<Rightarrow> string option \<Rightarrow> sysfs \<Rightarrow> bool \<times> sysfs" where
  "force_cpu_to_cstate cpu target_state fs =
     (case (case target_state of
              None \<Rightarrow> get_deepest_available_cstate fs cpu
            | Some t \<Rightarrow> Some t) of
        None \<Rightarrow> (False, fs)
      | Some target \<Rightarrow>
          if cpuidle fs cpu = None then (False, fs)
          else
            (let available_states = get_available_cstates fs cpu
             in if \<not> list_ex (\<lambda>s. name s = target) available_states then (False, fs)
                else
                  (let (deeper_states, fs1) = disable_deeper_loop cpu available_states [] fs;
                       fs2 = pulse_min_frequency cpu fs1;
                       fs3 = restore_deeper_loop deeper_states fs2
                   in (True, fs3))))"

section \<open>Core parking\<close>

definition offline_cpu_with_cstate_prep :: "nat \<Rightarrow> string option \<Rightarrow> sysfs \<Rightarrow> bool \<times> sysfs" where
  \<comment> \<open>\<^verbatim>\<open>if target_cstate:\<close> is false for \<^verbatim>\<open>None\<close> and for the empty string\<close>
  "offline_cpu_with_cstate_prep cpu target_cstate fs =
     (if cpu = 0 then (False, fs)
      else if \<not> path_exists fs (CpuOnline cpu) then (False, fs)
      else
        (case read_text fs (CpuOnline cpu) of
           None \<Rightarrow> (False, fs)
         | Some s \<Rightarrow>
             if strip s = ''0'' then (True, fs)
             else
               (let target = (case target_cstate of
                                None \<Rightarrow> get_deepest_available_cstate fs cpu
                              | Some t \<Rightarrow> Some t);
                    fs1 = (case target of
                             None \<Rightarrow> fs
                           | Some t \<Rightarrow>
                               if t = [] then fs else snd (force_cpu_to_cstate cpu (Some t) fs))
                in write_text (CpuOnline cpu) ''0'' fs1)))"

definition online_cpu :: "nat \<Rightarrow> sysfs \<Rightarrow> bool \<times> sysfs" where
  "online_cpu cpu fs =
     (if cpu = 0 then (True, fs)
      else if \<not> path_exists fs (CpuOnline cpu) then (False, fs)
      else
        (case read_text fs (CpuOnline cpu) of
           None \<Rightarrow> (False, fs)
         | Some s \<Rightarrow>
             if strip s = ''1'' then (True, fs)
             else write_text (CpuOnline cpu) ''1'' fs))"

fun online_siblings_loop :: "nat list \<Rightarrow> bool \<Rightarrow> sysfs \<Rightarrow> bool \<times> sysfs" where
  "online_siblings_loop [] success fs = (success, fs)"
| "online_siblings_loop (cpu # rest) success fs =
     (if cpu = 0 then online_siblings_loop rest success fs
      else (let (ok, fs1) = online_cpu cpu fs
            in online_siblings_loop rest (if \<not> ok then False else success) fs1))"

definition online_physical_core ::
    "cpu_manager \<Rightarrow> sysfs \<Rightarrow> nat \<Rightarrow> bool \<times> cpu_manager \<times> sysfs" where
  "online_physical_core m fs primary_cpu =
     (let (siblings, m1, fs1) = get_cpu_siblings m fs primary_cpu;
          (success, fs2) = online_siblings_loop siblings True fs1
      in (success, m1, fs2))"

fun offline_siblings_loop :: "nat list \<Rightarrow> bool \<Rightarrow> sysfs \<Rightarrow> bool \<times> sysfs" where
  "offline_siblings_loop [] success fs = (success, fs)"
| "offline_siblings_loop (cpu # rest) success fs =
     (if cpu = 0 then offline_siblings_loop rest success fs
      else (let (ok, fs1) = offline_cpu_with_cstate_prep cpu None fs
            in offline_siblings_loop rest (if \<not> ok then False else success) fs1))"

definition offline_physical_core ::
    "cpu_manager \<Rightarrow> sysfs \<Rightarrow> nat \<Rightarrow> bool \<times> cpu_manager \<times> sysfs" where
  "offline_physical_core m fs primary_cpu =
     (let (siblings, m1, fs1) = get_cpu_siblings m fs primary_cpu;
          (success, fs2) = offline_siblings_loop siblings True fs1
      in (success, m1, fs2))"

text \<open>
  The two loops of \<^verbatim>\<open>set_cpu_cores_with_cstate_optimization\<close> run over the indices
  \<^verbatim>\<open>range(target_cores)\<close> and \<^verbatim>\<open>range(target_cores, max_physical_cores)\<close>; after the clamp
  every index is inside \<^verbatim>\<open>primary_cpus\<close>.
\<close>

fun online_cores_loop ::
    "nat list \<Rightarrow> bool \<Rightarrow> nat list \<Rightarrow> bool \<Rightarrow> cpu_manager \<Rightarrow> sysfs
      \<Rightarrow> bool \<times> cpu_manager \<times> sysfs" where
  "online_cores_loop primary_cpus smt_enabled [] success m fs = (success, m, fs)"
| "online_cores_loop primary_cpus smt_enabled (i # rest) success m fs =
     (let primary_cpu = primary_cpus ! i
      in if smt_enabled then
           (let (ok, m1, fs1) = online_physical_core m fs primary_cpu
            in online_cores_loop primary_cpus smt_enabled rest
                 (if \<not> ok then False else success) m1 fs1)
         else if primary_cpu \<noteq> 0 then
           (let (ok, fs1) = online_cpu primary_cpu fs
            in online_cores_loop primary_cpus smt_enabled rest
                 (if \<not> ok then False else success) m fs1)
         else online_cores_loop primary_cpus smt_enabled rest success m fs)"

fun offline_cores_loop ::
    "nat list \<Rightarrow> bool \<Rightarrow> nat list \<Rightarrow> bool \<Rightarrow> cpu_manager \<Rightarrow> sysfs
      \<Rightarrow> bool \<times> cpu_manager \<times> sysfs" where
  "offline_cores_loop primary_cpus smt_enabled [] success m fs = (success, m, fs)"
| "offline_cores_loop primary_cpus smt_enabled (i # rest) success m fs =
     (let primary_cpu = primary_cpus ! i
      in if primary_cpu = 0 then offline_cores_loop primary_cpus smt_enabled rest success m fs
         else if smt_enabled then
           (let (ok, m1, fs1) = offline_physical_core m fs primary_cpu
            in offline_cores_loop primary_cpus smt_enabled rest
                 (if \<not> ok then False else success) m1 fs1)
         else
           (let (ok, fs1) = offline_cpu_with_cstate_prep primary_cpu None fs
            in offline_cores_loop primary_cpus smt_enabled rest
                 (if \<not> ok then False else success) m fs1))"

definition clamp_target :: "int \<Rightarrow> nat \<Rightarrow> nat" where
  \<comment> \<open>the two \<^verbatim>\<open>if\<close> statements on \<^verbatim>\<open>target_cores\<close>, in their order\<close>
  "clamp_target target_cores max_physical_cores =
     (let t1 = (if target_cores < 1 then 1 else target_cores);
          t2 = (if t1 > int max_physical_cores then int max_physical_cores else t1)
      in nat t2)"

definition set_cpu_cores_with_cstate_optimization ::
    "cpu_manager \<Rightarrow> int \<Rightarrow> sysfs \<Rightarrow> bool \<times> cpu_manager \<times> sysfs" where
  "set_cpu_cores_with_cstate_optimization m target_cores fs =
     (let (primary_cpus, m1, fs1) = get_primary_cpus_by_physical_core m fs;
          max_physical_cores = length primary_cpus;
          (smt_enabled, m2, fs2) = is_smt_enabled m1 fs1;
          target = clamp_target target_cores max_physical_cores;
          (success1, m3, fs3) =
             online_cores_loop primary_cpus smt_enabled [0 ..< target] True m2 fs2;
          (success2, m4, fs4) =
             offline_cores_loop primary_cpus smt_enabled [target ..< max_physical_cores]
               success1 m3 fs3
      in (success2, update_online_cpus m4 fs4, fs4))"

section \<open>Vocabulary of the properties\<close>

text \<open>
  \<open>touches_only S fs fs'\<close>: the tree \<open>fs'\<close> comes from \<open>fs\<close> by writes to attributes in
  \<open>S\<close> alone. The journal has grown by such writes, every other attribute has kept its
  text, no attribute has appeared or vanished, and what fails to be read or written is as
  before.
\<close>

definition touches_only :: "path set \<Rightarrow> sysfs \<Rightarrow> sysfs \<Rightarrow> bool" where
  "touches_only S fs fs' \<longleftrightarrow>
     rfail fs' = rfail fs \<and> wfail fs' = wfail fs \<and> cpuidle fs' = cpuidle fs
     \<and> cpu_dirs fs' = cpu_dirs fs
     \<and> (\<exists>l. wlog fs' = wlog fs @ l \<and> fst ` set l \<subseteq> S)
     \<and> (\<forall>p. p \<notin> S \<longrightarrow> files fs' p = files fs p)
     \<and> (\<forall>p. files fs' p = None \<longleftrightarrow> files fs p = None)"

text \<open>
  \<open>limit_writes fs min_f max_f cpu\<close>: the writes, in their order, that a request for the
  limits \<open>min_f\<close> and \<open>max_f\<close> makes for one CPU whose two limit files exist in \<open>fs\<close>:
  none if a current limit cannot be read; the new maximum into the minimum file first when
  it lies below both current limits; the maximum; and the minimum last, unless the write of
  a requested maximum has failed.
\<close>

definition limit_writes :: "sysfs \<Rightarrow> int option \<Rightarrow> int option \<Rightarrow> nat \<Rightarrow> (path \<times> string) list" where
  "limit_writes fs min_f max_f cpu =
     (case read_int fs (ScalingMinFreq cpu) of
        None \<Rightarrow> []
      | Some current_min \<Rightarrow>
          (case read_int fs (ScalingMaxFreq cpu) of
             None \<Rightarrow> []
           | Some current_max \<Rightarrow>
               (case max_f of
                  None \<Rightarrow> []
                | Some mx \<Rightarrow>
                    (if mx < current_max \<and> mx < current_min
                     then [(ScalingMinFreq cpu, str_int mx)] else [])
                    @ [(ScalingMaxFreq cpu, str_int mx)])
               @ (case min_f of
                    None \<Rightarrow> []
                  | Some mn \<Rightarrow>
                      if max_f = None \<or> \<not> wfail fs (ScalingMaxFreq cpu)
                      then [(ScalingMinFreq cpu, str_int mn)] else [])))"

definition limit_files :: "nat \<Rightarrow> path set" where
  "limit_files cpu = {ScalingMinFreq cpu, ScalingMaxFreq cpu}"

text \<open>The CPUs of the list that have both limit files: the ones a request is applied to.\<close>

definition limit_targets :: "sysfs \<Rightarrow> nat list \<Rightarrow> nat list" where
  "limit_targets fs cpus =
     filter (\<lambda>cpu. path_exists fs (ScalingMinFreq cpu) \<and> path_exists fs (ScalingMaxFreq cpu)) cpus"

text \<open>Small trees and managers, for the worked examples.\<close>

definition tree_of :: "(path \<times> string) list \<Rightarrow> sysfs" where
  \<comment> \<open>the attributes listed, all readable and writable, nothing written yet\<close>
  "tree_of l = \<lparr>files = map_of l, rfail = (\<lambda>_. False), wfail = (\<lambda>_. False),
                 cpuidle = (\<lambda>_. None), cpu_dirs = [], wlog = []\<rparr>"

definition manager_of :: "nat list \<Rightarrow> cpu_manager" where
  \<comment> \<open>a manager as \<^verbatim>\<open>__init__\<close> leaves it, with the given CPUs possible and online\<close>
  "manager_of cpus = \<lparr>possible_cpus = cpus, primary_cpus_cache = None, cpu_siblings_map = [],
                        topology_initialized = False, online_cpus = cpus,
                        scaling_driver = None\<rparr>"

definition freq_tree :: sysfs where
  "freq_tree = tree_of [(CpuinfoMinFreq, ''400000''), (CpuinfoMaxFreq, ''4000000''),
                        (ScalingMinFreq 0, ''1500000''), (ScalingMaxFreq 0, ''2000000'')]"

text \<open>The CPUs of the list that have a per-policy boost file.\<close>

definition boost_targets :: "sysfs \<Rightarrow> nat list \<Rightarrow> nat list" where
  "boost_targets fs cpus = filter (\<lambda>cpu. path_exists fs (PolicyBoost cpu)) cpus"

definition all_limit_files :: "path set" where
  "all_limit_files = range ScalingMinFreq \<union> range ScalingMaxFreq"

definition policy_tree :: sysfs where
  "policy_tree = (tree_of [(PolicyBoost 0, ''1''), (PolicyBoost 1, ''1''),
                           (PolicyBoost 2, ''1''), (PolicyBoost 3, ''1'')])
                   \<lparr>wfail := (\<lambda>p. p = PolicyBoost 2)\<rparr>"


text \<open>The CPUs of the list for which the attribute \<open>file cpu\<close> exists.\<close>

definition file_targets :: "(nat \<Rightarrow> path) \<Rightarrow> sysfs \<Rightarrow> nat list \<Rightarrow> nat list" where
  "file_targets file fs cpus = filter (\<lambda>cpu. path_exists fs (file cpu)) cpus"

definition gov_tree :: sysfs where
  "gov_tree = tree_of [(CpuOnlineList, ''0''), (AvailableGovernors 0, ''performance powersave''),
                       (ScalingGovernor 0, ''performance'')]"

definition epp_tree :: sysfs where
  "epp_tree = tree_of [(CpuPossible, ''0''), (CpuOnlineList, ''0''),
       (ScalingGovernor 0, ''performance''),
       (AvailableEpp 0, ''default performance balance_performance balance_power power''),
       (EppPreference 0, ''balance_performance'')]"

text \<open>
  The attributes the parking path writes: the idle-state switches and the maximum
  frequency that the preparation pulses, and the \<^verbatim>\<open>online\<close> files of CPUs other than 0.
  A CPU counts as online when it is CPU 0 or its \<^verbatim>\<open>online\<close> file reads \<^verbatim>\<open>1\<close>, as offline
  when it is not CPU 0 and the file reads \<^verbatim>\<open>0\<close>.
\<close>

definition prep_files :: "path set" where
  "prep_files = {p. (\<exists>c s. p = CStateDisable c s) \<or> (\<exists>c. p = ScalingMaxFreq c)}"

definition hotplug_files :: "nat set \<Rightarrow> path set" where
  "hotplug_files cpus = {p. \<exists>c. c \<in> cpus \<and> c \<noteq> 0 \<and> p = CpuOnline c}"

definition cpu_online :: "sysfs \<Rightarrow> nat \<Rightarrow> bool" where
  "cpu_online fs c \<longleftrightarrow>
     c = 0 \<or> (case read_text fs (CpuOnline c) of None \<Rightarrow> False | Some s \<Rightarrow> strip s = ''1'')"

definition cpu_offline :: "sysfs \<Rightarrow> nat \<Rightarrow> bool" where
  "cpu_offline fs c \<longleftrightarrow>
     c \<noteq> 0 \<and> (case read_text fs (CpuOnline c) of None \<Rightarrow> False | Some s \<Rightarrow> strip s = ''0'')"

text \<open>
  The cached topology as the parking code reads it: the siblings of a CPU (itself alone
  when the map has no entry), the primary CPUs (CPU 0 alone when the cache is empty), the
  CPUs that make up a physical core (all siblings under SMT, the primary alone otherwise),
  and from these the CPUs of the first \<open>t\<close> cores, which are brought online, and the CPUs
  of the remaining cores whose primary is not CPU 0, which are parked.
\<close>

definition siblings_of :: "cpu_manager \<Rightarrow> nat \<Rightarrow> nat list" where
  "siblings_of m c = (case map_of (cpu_siblings_map m) c of None \<Rightarrow> [c] | Some s \<Rightarrow> s)"

definition primaries :: "cpu_manager \<Rightarrow> nat list" where
  "primaries m = (case primary_cpus_cache m of
                    None \<Rightarrow> [0]
                  | Some cache \<Rightarrow> if cache = [] then [0] else cache)"

definition core_cpus :: "cpu_manager \<Rightarrow> bool \<Rightarrow> nat \<Rightarrow> nat list" where
  "core_cpus m smt p = (if smt then siblings_of m p else [p])"

definition kept_cpus :: "cpu_manager \<Rightarrow> bool \<Rightarrow> nat \<Rightarrow> nat list" where
  "kept_cpus m smt t = concat (map (core_cpus m smt) (take t (primaries m)))"

definition parked_cpus :: "cpu_manager \<Rightarrow> bool \<Rightarrow> nat \<Rightarrow> nat list" where
  "parked_cpus m smt t =
     concat (map (core_cpus m smt) (filter (\<lambda>p. p \<noteq> 0) (drop t (primaries m))))"

text \<open>
  The parking itself, once the topology is cached: bring the kept CPUs online, in order,
  then park the others, in order.
\<close>

definition run_parking :: "cpu_manager \<Rightarrow> bool \<Rightarrow> nat \<Rightarrow> sysfs \<Rightarrow> bool \<times> sysfs" where
  "run_parking m smt t fs =
     offline_siblings_loop (parked_cpus m smt t)
       (fst (online_siblings_loop (kept_cpus m smt t) True fs))
       (snd (online_siblings_loop (kept_cpus m smt t) True fs))"

definition parking_files :: "path set" where
  "parking_files = hotplug_files UNIV \<union> prep_files"

text \<open>
  \<open>ensure_topology\<close> is the lazy step that \<^verbatim>\<open>get_primary_cpus_by_physical_core\<close>,
  \<^verbatim>\<open>get_cpu_siblings\<close> and \<^verbatim>\<open>is_smt_enabled\<close> share. \<open>leaves_cpu0 fs fs'\<close> says that on the
  way from \<open>fs\<close> to \<open>fs'\<close> nothing was written to the \<^verbatim>\<open>online\<close> file of CPU 0, whether it
  exists or not: no such write was attempted, and the file is as it was.
\<close>

definition ensure_topology :: "cpu_manager \<Rightarrow> sysfs \<Rightarrow> cpu_manager \<times> sysfs" where
  "ensure_topology m fs =
     (if \<not> topology_initialized m then initialize_cpu_topology m fs else (m, fs))"

definition leaves_cpu0 :: "sysfs \<Rightarrow> sysfs \<Rightarrow> bool" where
  "leaves_cpu0 fs fs' \<longleftrightarrow>
     (\<exists>l. wlog fs' = wlog fs @ l \<and> CpuOnline 0 \<notin> fst ` set l)
     \<and> files fs' (CpuOnline 0) = files fs (CpuOnline 0)"

text \<open>
  A physical core is online when all its CPUs are, offline when all its CPUs are. A cached
  topology is well formed when the primary CPUs are listed once each in ascending order,
  every core holds its primary, different cores share no CPU, and CPU 0 belongs to no core
  but the one it is the primary of. The example is Scenario A of the specification: eight
  CPUs in four cores with the siblings (0,4), (1,5), (2,6), (3,7), SMT active, all online.
\<close>

definition core_online :: "sysfs \<Rightarrow> cpu_manager \<Rightarrow> bool \<Rightarrow> nat \<Rightarrow> bool" where
  "core_online fs m smt p \<longleftrightarrow> (\<forall>c \<in> set (core_cpus m smt p). cpu_online fs c)"

definition core_offline :: "sysfs \<Rightarrow> cpu_manager \<Rightarrow> bool \<Rightarrow> nat \<Rightarrow> bool" where
  "core_offline fs m smt p \<longleftrightarrow> (\<forall>c \<in> set (core_cpus m smt p). cpu_offline fs c)"

definition topology_ok :: "cpu_manager \<Rightarrow> bool \<Rightarrow> bool" where
  "topology_ok m smt \<longleftrightarrow>
     distinct (primaries m) \<and> sorted (primaries m)
     \<and> (\<forall>p \<in> set (primaries m). p \<in> set (core_cpus m smt p))
     \<and> (\<forall>p \<in> set (primaries m). \<forall>q \<in> set (primaries m).
           p \<noteq> q \<longrightarrow> set (core_cpus m smt p) \<inter> set (core_cpus m smt q) = {})
     \<and> (\<forall>p \<in> set (primaries m). 0 \<in> set (core_cpus m smt p) \<longrightarrow> p = 0)"

definition smt_manager :: cpu_manager where
  "smt_manager = \<lparr>possible_cpus = [0, 1, 2, 3, 4, 5, 6, 7],
      primary_cpus_cache = Some [0, 1, 2, 3],
      cpu_siblings_map = [(0, [0, 4]), (1, [1, 5]), (2, [2, 6]), (3, [3, 7]),
                          (4, [0, 4]), (5, [1, 5]), (6, [2, 6]), (7, [3, 7])],
      topology_initialized = True, online_cpus = [0, 1, 2, 3, 4, 5, 6, 7],
      scaling_driver = None\<rparr>"

definition smt_tree :: sysfs where
  "smt_tree = tree_of [(SmtActive, ''1''), (CpuOnlineList, ''0-7''),
      (CpuOnline 1, ''1''), (CpuOnline 2, ''1''), (CpuOnline 3, ''1''), (CpuOnline 4, ''1''),
      (CpuOnline 5, ''1''), (CpuOnline 6, ''1''), (CpuOnline 7, ''1'')]"

section \<open>Properties\<close>

subsection \<open>Writes and what they leave alone\<close>

lemma touches_onlyI:
  assumes "rfail fs' = rfail fs" "wfail fs' = wfail fs" "cpuidle fs' = cpuidle fs"
    "cpu_dirs fs' = cpu_dirs fs" "wlog fs' = wlog fs @ l" "fst ` set l \<subseteq> S"
    "\<And>p. p \<notin> S \<Longrightarrow> files fs' p = files fs p"
    "\<And>p. files fs' p = None \<longleftrightarrow> files fs p = None"
  shows "touches_only S fs fs'"
  unfolding touches_only_def using assms by (intro conjI exI[of _ l]) simp_all

lemma touches_only_log:
  assumes "touches_only S fs fs'"
  obtains l where "wlog fs' = wlog fs @ l" "fst ` set l \<subseteq> S"
  using assms unfolding touches_only_def by (elim conjE exE)

lemma touches_only_same:
  assumes "touches_only S fs fs'"
  shows "rfail fs' = rfail fs" "wfail fs' = wfail fs" "cpuidle fs' = cpuidle fs"
    "cpu_dirs fs' = cpu_dirs fs"
    "files fs' p = None \<longleftrightarrow> files fs p = None"
  using assms unfolding touches_only_def by simp_all

lemma touches_only_files:
  "touches_only S fs fs' \<Longrightarrow> p \<notin> S \<Longrightarrow> files fs' p = files fs p"
  unfolding touches_only_def by simp

lemma touches_only_refl: "touches_only S fs fs"
  by (rule touches_onlyI[where l = "[]"]) simp_all

lemma touches_only_trans:
  assumes ab: "touches_only S a b" and bc: "touches_only S b c"
  shows "touches_only S a c"
proof -
  from ab obtain l1 where l1: "wlog b = wlog a @ l1" "fst ` set l1 \<subseteq> S"
    by (rule touches_only_log)
  from bc obtain l2 where l2: "wlog c = wlog b @ l2" "fst ` set l2 \<subseteq> S"
    by (rule touches_only_log)
  show ?thesis
  proof (rule touches_onlyI[where l = "l1 @ l2"])
    show "wlog c = wlog a @ l1 @ l2" using l1 l2 by simp
    show "fst ` set (l1 @ l2) \<subseteq> S" using l1 l2 by auto
    show "\<And>p. p \<notin> S \<Longrightarrow> files c p = files a p"
      using touches_only_files[OF ab] touches_only_files[OF bc] by simp
  qed (simp_all add: touches_only_same[OF ab] touches_only_same[OF bc])
qed

lemma touches_only_mono:
  assumes ab: "touches_only S a b" and sub: "S \<subseteq> T"
  shows "touches_only T a b"
proof -
  from ab obtain l where l: "wlog b = wlog a @ l" "fst ` set l \<subseteq> S"
    by (rule touches_only_log)
  show ?thesis
  proof (rule touches_onlyI[where l = l])
    show "fst ` set l \<subseteq> T" using l sub by auto
    show "\<And>p. p \<notin> T \<Longrightarrow> files b p = files a p"
      using touches_only_files[OF ab] sub by auto
  qed (simp_all add: l touches_only_same[OF ab])
qed

lemma write_text_touches: "p \<in> S \<Longrightarrow> touches_only S fs (snd (write_text p v fs))"
  by (rule touches_onlyI[where l = "[(p, v)]"]) (auto simp: write_text_def Let_def)

lemma write_text_log: "wlog (snd (write_text p v fs)) = wlog fs @ [(p, v)]"
  by (simp add: write_text_def Let_def)

lemma write_text_ok: "fst (write_text p v fs) \<longleftrightarrow> files fs p \<noteq> None \<and> \<not> wfail fs p"
  by (simp add: write_text_def Let_def)

lemma write_text_files:
  "files (snd (write_text p v fs)) q =
     (if q = p \<and> files fs p \<noteq> None \<and> \<not> wfail fs p then Some v else files fs q)"
  by (simp add: write_text_def Let_def)

lemma touches_only_read_text:
  "touches_only S fs fs' \<Longrightarrow> p \<notin> S \<Longrightarrow> read_text fs' p = read_text fs p"
  by (simp add: touches_only_def read_text_def)

lemma touches_only_read_int:
  "touches_only S fs fs' \<Longrightarrow> p \<notin> S \<Longrightarrow> read_int fs' p = read_int fs p"
  by (simp add: touches_only_read_text read_int_def)

lemma touches_only_exists:
  "touches_only S fs fs' \<Longrightarrow> path_exists fs' p = path_exists fs p"
  by (simp add: touches_only_def path_exists_def)

subsection \<open>Frequency limits\<close>

lemma set_limits_none_none:
  "set_cpu_frequency_limits m None None fs = (False, fs)"
  by (simp add: set_cpu_frequency_limits_def)

lemma write_max_phase_touches:
  "touches_only (limit_files cpu) fs (snd (write_max_phase cpu a b mx fs))"
  unfolding write_max_phase_def Let_def limit_files_def
  by (simp add: write_text_touches
        touches_only_trans[OF write_text_touches write_text_touches])

lemma apply_limits_cpu_touches:
  "touches_only (limit_files cpu) fs (snd (apply_limits_cpu cpu min_f max_f fs))"
proof (cases "read_int fs (ScalingMinFreq cpu)")
  case None
  then show ?thesis by (simp add: apply_limits_cpu_def touches_only_refl)
next
  case (Some current_min)
  note cmin = this
  show ?thesis
  proof (cases "read_int fs (ScalingMaxFreq cpu)")
    case None
    with cmin show ?thesis by (simp add: apply_limits_cpu_def touches_only_refl)
  next
    case (Some current_max)
    define r where "r = (case max_f of None \<Rightarrow> (True, fs)
                          | Some mx \<Rightarrow> write_max_phase cpu current_min current_max mx fs)"
    have t1: "touches_only (limit_files cpu) fs (snd r)"
      by (cases max_f) (simp_all add: r_def touches_only_refl write_max_phase_touches)
    have eq: "apply_limits_cpu cpu min_f max_f fs =
                (case min_f of None \<Rightarrow> r
                 | Some mn \<Rightarrow> if fst r then write_text (ScalingMinFreq cpu) (str_int mn) (snd r)
                              else r)"
      using cmin Some
      by (simp add: apply_limits_cpu_def r_def split: prod.splits option.splits)
    have t2: "touches_only (limit_files cpu) fs
                (snd (write_text (ScalingMinFreq cpu) v (snd r)))" for v
      by (rule touches_only_trans[OF t1 write_text_touches]) (simp add: limit_files_def)
    show ?thesis
      unfolding eq using t1 t2 by (cases min_f) simp_all
  qed
qed

lemma write_text_same [simp]:
  "wfail (snd (write_text p v fs)) = wfail fs" "rfail (snd (write_text p v fs)) = rfail fs"
  "cpuidle (snd (write_text p v fs)) = cpuidle fs" "cpu_dirs (snd (write_text p v fs)) = cpu_dirs fs"
  by (simp_all add: write_text_def Let_def)

lemma read_int_Some_exists: "read_int fs p = Some x \<Longrightarrow> files fs p \<noteq> None"
  by (auto simp: read_int_def read_text_def split: option.splits if_splits)

lemma apply_limits_cpu_log:
  "wlog (snd (apply_limits_cpu cpu min_f max_f fs)) = wlog fs @ limit_writes fs min_f max_f cpu"
proof (cases "read_int fs (ScalingMinFreq cpu)")
  case None
  then show ?thesis by (simp add: apply_limits_cpu_def limit_writes_def)
next
  case (Some current_min)
  note cmin = this
  show ?thesis
  proof (cases "read_int fs (ScalingMaxFreq cpu)")
    case None
    with cmin show ?thesis by (simp add: apply_limits_cpu_def limit_writes_def)
  next
    case (Some current_max)
    have ex: "files fs (ScalingMaxFreq cpu) \<noteq> None"
      using Some by (rule read_int_Some_exists)
    show ?thesis
      using cmin Some ex
      by (cases max_f; cases min_f)
         (auto simp: apply_limits_cpu_def limit_writes_def write_max_phase_def Let_def
            case_prod_unfold write_text_log write_text_ok write_text_files)
  qed
qed

lemma limit_writes_cong:
  assumes "touches_only (limit_files c) fs fs'" "cpu \<noteq> c"
  shows "limit_writes fs' min_f max_f cpu = limit_writes fs min_f max_f cpu"
proof -
  have "ScalingMinFreq cpu \<notin> limit_files c" "ScalingMaxFreq cpu \<notin> limit_files c"
    using assms(2) by (simp_all add: limit_files_def)
  then have "read_int fs' (ScalingMinFreq cpu) = read_int fs (ScalingMinFreq cpu)"
    "read_int fs' (ScalingMaxFreq cpu) = read_int fs (ScalingMaxFreq cpu)"
    using assms(1) by (simp_all add: touches_only_read_int)
  moreover have "wfail fs' = wfail fs" using assms(1) by (rule touches_only_same)
  ultimately show ?thesis by (auto simp: limit_writes_def split: option.splits)
qed

lemma limits_loop_log:
  "distinct cpus \<Longrightarrow>
   wlog (snd (snd (limits_loop cpus min_f max_f sc ta fs))) =
     wlog fs @ concat (map (limit_writes fs min_f max_f) (limit_targets fs cpus))"
proof (induction cpus arbitrary: sc ta fs)
  case Nil
  then show ?case by (simp add: limit_targets_def)
next
  case (Cons cpu cpus)
  show ?case
  proof (cases "path_exists fs (ScalingMinFreq cpu) \<and> path_exists fs (ScalingMaxFreq cpu)")
    case False
    then show ?thesis using Cons by (auto simp: limit_targets_def)
  next
    case True
    define fs1 where "fs1 = snd (apply_limits_cpu cpu min_f max_f fs)"
    have t: "touches_only (limit_files cpu) fs fs1"
      unfolding fs1_def by (rule apply_limits_cpu_touches)
    have same_targets: "limit_targets fs1 cpus = limit_targets fs cpus"
      by (simp add: limit_targets_def touches_only_exists[OF t])
    have same_writes: "map (limit_writes fs1 min_f max_f) (limit_targets fs cpus)
                       = map (limit_writes fs min_f max_f) (limit_targets fs cpus)"
      using Cons.prems by (intro map_cong refl limit_writes_cong[OF t]) (auto simp: limit_targets_def)
    have step: "wlog fs1 = wlog fs @ limit_writes fs min_f max_f cpu"
      unfolding fs1_def by (rule apply_limits_cpu_log)
    have "wlog (snd (snd (limits_loop (cpu # cpus) min_f max_f sc ta fs))) =
          wlog fs1 @ concat (map (limit_writes fs1 min_f max_f) (limit_targets fs1 cpus))"
      using True Cons.prems Cons.IH[of _ _ fs1]
      by (simp add: case_prod_unfold fs1_def Let_def)
    moreover have "limit_targets fs (cpu # cpus) = cpu # limit_targets fs cpus"
      using True by (simp add: limit_targets_def)
    ultimately show ?thesis
      by (simp add: same_targets same_writes step)
  qed
qed

text \<open>
  C6. A request whose minimum or maximum lies outside the range that
  \<^verbatim>\<open>get_cpu_frequency_range\<close> reports, or whose minimum exceeds its maximum, is answered
  with false, and the tree is returned as it was: no write has been attempted.
\<close>

theorem set_limits_rejects_invalid:
  assumes "(\<exists>r mn. get_cpu_frequency_range fs = Some r \<and> min_f = Some mn
              \<and> (mn < min_freq_khz r \<or> mn > max_freq_khz r))
         \<or> (\<exists>r mx. get_cpu_frequency_range fs = Some r \<and> max_f = Some mx
              \<and> (mx < min_freq_khz r \<or> mx > max_freq_khz r))
         \<or> (\<exists>mn mx. min_f = Some mn \<and> max_f = Some mx \<and> mn > mx)"
  shows "set_cpu_frequency_limits m min_f max_f fs = (False, fs)"
  using assms
  by (auto simp: set_cpu_frequency_limits_def split: option.splits)

lemmas text_eval = py_int_def py_nat_def strip_def is_space_def split_on_def digit_of_def
  str_int_def str_nat.simps digit_char_def
lemmas tree_eval = tree_of_def manager_of_def path_exists_def read_text_def read_int_def
  write_text_def Let_def

lemma freq_tree_range:
  "get_cpu_frequency_range freq_tree =
     Some \<lparr>min_freq_khz = 400000, max_freq_khz = 4000000, min_freq_mhz = 400, max_freq_mhz = 4000\<rparr>"
  by (simp add: get_cpu_frequency_range_def freq_tree_def tree_eval text_eval)

theorem set_limits_rejects_invalid_witness:
  "get_cpu_frequency_range freq_tree =
     Some \<lparr>min_freq_khz = 400000, max_freq_khz = 4000000, min_freq_mhz = 400, max_freq_mhz = 4000\<rparr>
   \<and> set_cpu_frequency_limits (manager_of [0]) (Some 100000) None freq_tree = (False, freq_tree)"
  using set_limits_rejects_invalid[of freq_tree "Some 100000" None "manager_of [0]"] freq_tree_range
  by simp

lemma set_limits_log:
  assumes "distinct (online_cpus m)"
    and "get_cpu_frequency_range fs = Some r"
    and "\<forall>mn. min_f = Some mn \<longrightarrow> min_freq_khz r \<le> mn \<and> mn \<le> max_freq_khz r"
    and "\<forall>mx. max_f = Some mx \<longrightarrow> min_freq_khz r \<le> mx \<and> mx \<le> max_freq_khz r"
    and "\<forall>mn mx. min_f = Some mn \<and> max_f = Some mx \<longrightarrow> mn \<le> mx"
    and "min_f \<noteq> None \<or> max_f \<noteq> None"
  shows "wlog (snd (set_cpu_frequency_limits m min_f max_f fs)) =
           wlog fs @ concat (map (limit_writes fs min_f max_f) (limit_targets fs (online_cpus m)))"
proof -
  have "set_cpu_frequency_limits m min_f max_f fs =
          (let (success_count, total_attempts, fs1) = limits_loop (online_cpus m) min_f max_f 0 0 fs
           in (success_count = total_attempts \<and> total_attempts > 0, fs1))"
    using assms(2-6)
    by (cases min_f; cases max_f) (auto simp: set_cpu_frequency_limits_def)
  then show ?thesis
    using limits_loop_log[OF assms(1), of min_f max_f 0 0 fs]
    by (simp add: case_prod_unfold Let_def)
qed

text \<open>
  The order of the writes in general. For a request that passes validation, with the online
  CPUs listed once each, the journal grows by \<open>limit_writes\<close> of every CPU that has both
  limit files, in the order of the list. So for each such CPU whose current limits can be
  read: a requested maximum below both current limits is first written into the minimum
  file, also when no minimum is requested; then the maximum is written, and then the
  requested minimum, provided the write of the maximum has not failed.
\<close>

theorem set_limits_write_order:
  assumes "distinct (online_cpus m)"
    and "get_cpu_frequency_range fs = Some r"
    and "\<forall>mn. min_f = Some mn \<longrightarrow> min_freq_khz r \<le> mn \<and> mn \<le> max_freq_khz r"
    and "\<forall>mx. max_f = Some mx \<longrightarrow> min_freq_khz r \<le> mx \<and> mx \<le> max_freq_khz r"
    and "\<forall>mn mx. min_f = Some mn \<and> max_f = Some mx \<longrightarrow> mn \<le> mx"
    and "min_f \<noteq> None \<or> max_f \<noteq> None"
  shows "wlog (snd (set_cpu_frequency_limits m min_f max_f fs)) =
           wlog fs @ concat (map (limit_writes fs min_f max_f) (limit_targets fs (online_cpus m)))"
  using assms by (rule set_limits_log)

theorem set_limits_write_order_witness:
  "distinct (online_cpus (manager_of [0]))
   \<and> get_cpu_frequency_range freq_tree =
       Some \<lparr>min_freq_khz = 400000, max_freq_khz = 4000000, min_freq_mhz = 400, max_freq_mhz = 4000\<rparr>
   \<and> wlog (snd (set_cpu_frequency_limits (manager_of [0]) (Some 800000) (Some 1000000) freq_tree))
       = [(ScalingMinFreq 0, ''1000000''), (ScalingMaxFreq 0, ''1000000''),
          (ScalingMinFreq 0, ''800000'')]"
proof -
  have d: "distinct (online_cpus (manager_of [0]))" by (simp add: manager_of_def)
  have "wlog (snd (set_cpu_frequency_limits (manager_of [0]) (Some 800000) (Some 1000000) freq_tree))
        = wlog freq_tree @ concat (map (limit_writes freq_tree (Some 800000) (Some 1000000))
             (limit_targets freq_tree (online_cpus (manager_of [0]))))"
    by (rule set_limits_write_order[OF d freq_tree_range]) simp_all
  also have "\<dots> = [(ScalingMinFreq 0, ''1000000''), (ScalingMaxFreq 0, ''1000000''),
                     (ScalingMinFreq 0, ''800000'')]"
    by (simp add: limit_targets_def limit_writes_def freq_tree_def tree_eval text_eval)
  finally show ?thesis using d freq_tree_range by simp
qed

text \<open>
  C7. Where both limits are requested the order is the one claimed (the witness above).
  Where only a maximum is requested and it lies below the current minimum, the code moves
  the minimum out of the way first. The mirror case is missed: with the current maximum at
  2000000 kHz, a request for a minimum of 3000000 kHz alone writes the minimum file and
  nothing else, so no write of the maximum comes before the conflicting minimum.
\<close>

theorem set_limits_min_only_skips_max:
  "read_int freq_tree (ScalingMinFreq 0) = Some 1500000
   \<and> read_int freq_tree (ScalingMaxFreq 0) = Some 2000000
   \<and> wlog (snd (set_cpu_frequency_limits (manager_of [0]) None (Some 1000000) freq_tree))
       = [(ScalingMinFreq 0, ''1000000''), (ScalingMaxFreq 0, ''1000000'')]
   \<and> wlog (snd (set_cpu_frequency_limits (manager_of [0]) (Some 3000000) None freq_tree))
       = [(ScalingMinFreq 0, ''3000000'')]"
proof -
  have "wlog (snd (set_cpu_frequency_limits (manager_of [0]) (Some 3000000) None freq_tree)) =
          wlog freq_tree @ concat (map (limit_writes freq_tree (Some 3000000) None)
             (limit_targets freq_tree (online_cpus (manager_of [0]))))"
    by (rule set_limits_log[OF _ freq_tree_range]) (simp_all add: manager_of_def)
  also have "\<dots> = [(ScalingMinFreq 0, ''3000000'')]"
    by (simp add: limit_targets_def limit_writes_def freq_tree_def tree_eval text_eval)
  finally have min_only:
    "wlog (snd (set_cpu_frequency_limits (manager_of [0]) (Some 3000000) None freq_tree))
       = [(ScalingMinFreq 0, ''3000000'')]" .
  have "wlog (snd (set_cpu_frequency_limits (manager_of [0]) None (Some 1000000) freq_tree)) =
          wlog freq_tree @ concat (map (limit_writes freq_tree None (Some 1000000))
             (limit_targets freq_tree (online_cpus (manager_of [0]))))"
    by (rule set_limits_log[OF _ freq_tree_range]) (simp_all add: manager_of_def)
  also have "\<dots> = [(ScalingMinFreq 0, ''1000000''), (ScalingMaxFreq 0, ''1000000'')]"
    by (simp add: limit_targets_def limit_writes_def freq_tree_def tree_eval text_eval)
  finally have max_only:
    "wlog (snd (set_cpu_frequency_limits (manager_of [0]) None (Some 1000000) freq_tree))
       = [(ScalingMinFreq 0, ''1000000''), (ScalingMaxFreq 0, ''1000000'')]" .
  show ?thesis
    using min_only max_only by (simp add: freq_tree_def tree_eval text_eval)
qed

subsection \<open>Boost\<close>

lemma write_text_exists [simp]: "path_exists (snd (write_text p v fs)) q = path_exists fs q"
  by (simp add: path_exists_def write_text_def Let_def)

lemma boost_targets_write [simp]:
  "boost_targets (snd (write_text p v fs)) cpus = boost_targets fs cpus"
  by (simp add: boost_targets_def)

lemma boost_targets_simps [simp]:
  "boost_targets fs [] = []"
  "boost_targets fs (cpu # cpus) =
     (if path_exists fs (PolicyBoost cpu) then cpu # boost_targets fs cpus
      else boost_targets fs cpus)"
  by (simp_all add: boost_targets_def)

lemma write_text_ok_exists: "fst (write_text p v fs) \<longleftrightarrow> path_exists fs p \<and> \<not> wfail fs p"
  by (simp add: write_text_ok path_exists_def)

lemma per_cpu_boost_loop_total:
  "fst (snd (per_cpu_boost_loop v cpus sc ta fs)) = ta + length (boost_targets fs cpus)"
  by (induction cpus arbitrary: sc ta fs)
     (simp_all add: case_prod_unfold Let_def)

lemma per_cpu_boost_loop_success:
  "fst (per_cpu_boost_loop v cpus sc ta fs) =
     sc + length (filter (\<lambda>c. \<not> wfail fs (PolicyBoost c)) (boost_targets fs cpus))"
  by (induction cpus arbitrary: sc ta fs)
     (simp_all add: case_prod_unfold Let_def write_text_ok_exists)

lemma per_cpu_boost_loop_log:
  "wlog (snd (snd (per_cpu_boost_loop v cpus sc ta fs))) =
     wlog fs @ map (\<lambda>c. (PolicyBoost c, v)) (boost_targets fs cpus)"
  by (induction cpus arbitrary: sc ta fs)
     (simp_all add: case_prod_unfold Let_def write_text_log)

lemma per_cpu_boost_loop_touches:
  "touches_only (range PolicyBoost) fs (snd (snd (per_cpu_boost_loop v cpus sc ta fs)))"
proof (induction cpus arbitrary: sc ta fs)
  case Nil
  then show ?case by (simp add: touches_only_refl)
next
  case (Cons cpu cpus)
  have w: "touches_only (range PolicyBoost) fs (snd (write_text (PolicyBoost cpu) v fs))"
    by (rule write_text_touches) simp
  show ?case
    using Cons.IH touches_only_trans[OF w Cons.IH]
    by (simp add: case_prod_unfold Let_def)
qed

lemma per_cpu_boost_loop_files:
  "files fs (PolicyBoost c) = Some v
     \<or> (c \<in> set (boost_targets fs cpus) \<and> \<not> wfail fs (PolicyBoost c))
   \<Longrightarrow> files (snd (snd (per_cpu_boost_loop v cpus sc ta fs))) (PolicyBoost c) = Some v"
proof (induction cpus arbitrary: sc ta fs)
  case Nil
  then show ?case by (simp add: boost_targets_def)
next
  case (Cons cpu cpus)
  show ?case
  proof (cases "path_exists fs (PolicyBoost cpu)")
    case False
    then show ?thesis using Cons.prems Cons.IH[of fs] by auto
  next
    case True
    define fs1 where "fs1 = snd (write_text (PolicyBoost cpu) v fs)"
    have "files fs1 (PolicyBoost c) = Some v
          \<or> (c \<in> set (boost_targets fs1 cpus) \<and> \<not> wfail fs1 (PolicyBoost c))"
      using Cons.prems True
      by (auto simp: fs1_def write_text_files path_exists_def)
    then have "files (snd (snd (per_cpu_boost_loop v cpus
                 (if fst (write_text (PolicyBoost cpu) v fs) then sc + 1 else sc) (ta + 1) fs1)))
                 (PolicyBoost c) = Some v"
      by (rule Cons.IH)
    then show ?thesis using True by (simp add: case_prod_unfold Let_def fs1_def)
  qed
qed

lemma length_filter_all: "length (filter P xs) = length xs \<longleftrightarrow> (\<forall>x\<in>set xs. P x)"
  by (metis filter_id_conv length_filter_le filter_True sum_length_filter_compl add_cancel_right_right length_0_conv filter_empty_conv)

lemma limits_loop_touches:
  "touches_only all_limit_files fs (snd (snd (limits_loop cpus min_f max_f sc ta fs)))"
proof (induction cpus arbitrary: sc ta fs)
  case Nil
  then show ?case by (simp add: touches_only_refl)
next
  case (Cons cpu cpus)
  have w: "touches_only all_limit_files fs (snd (apply_limits_cpu cpu min_f max_f fs))"
    by (rule touches_only_mono[OF apply_limits_cpu_touches])
       (auto simp: limit_files_def all_limit_files_def)
  show ?case
    using Cons.IH touches_only_trans[OF w Cons.IH]
    by (simp add: case_prod_unfold Let_def)
qed

lemma set_cpu_frequency_limits_touches:
  "touches_only all_limit_files fs (snd (set_cpu_frequency_limits m min_f max_f fs))"
  by (auto simp: set_cpu_frequency_limits_def touches_only_refl case_prod_unfold Let_def
        limits_loop_touches split: option.splits)

lemma enforce_boost_limits_eq:
  "enforce_boost_limits m enabled fs =
     (case get_cpu_frequency_range fs of
        None \<Rightarrow> fs
      | Some r \<Rightarrow> snd (set_cpu_frequency_limits m (Some (min_freq_khz r))
                        (Some (max_freq_khz r)) fs))"
  by (simp add: enforce_boost_limits_def Let_def split: option.splits)

lemma enforce_boost_limits_touches:
  "touches_only all_limit_files fs (enforce_boost_limits m enabled fs)"
  by (simp add: enforce_boost_limits_eq touches_only_refl set_cpu_frequency_limits_touches
           split: option.splits)

lemma switch_boost_per_policy:
  assumes "\<not> path_exists fs IntelNoTurbo"
    and "\<not> path_exists fs CpufreqBoost \<or> wfail fs CpufreqBoost"
  shows "\<exists>fs1. touches_only {CpufreqBoost} fs fs1 \<and>
           switch_boost m enabled fs =
             (let (success_count, total_attempts, fs2) =
                    per_cpu_boost_loop (boost_text enabled) (online_cpus m) 0 0 fs1
              in (total_attempts > 0 \<and> success_count = total_attempts, fs2))"
proof (cases "path_exists fs CpufreqBoost")
  case False
  with assms(1) have "switch_boost m enabled fs =
             (let (success_count, total_attempts, fs2) =
                    per_cpu_boost_loop (boost_text enabled) (online_cpus m) 0 0 fs
              in (total_attempts > 0 \<and> success_count = total_attempts, fs2))"
    by (simp add: switch_boost_def)
  then show ?thesis using touches_only_refl by blast
next
  case True
  with assms have wf: "wfail fs CpufreqBoost" by simp
  define fs1 where "fs1 = snd (write_text CpufreqBoost (boost_text enabled) fs)"
  have "\<not> fst (write_text CpufreqBoost (boost_text enabled) fs)"
    using wf by (simp add: write_text_ok)
  with assms(1) True have "switch_boost m enabled fs =
             (let (success_count, total_attempts, fs2) =
                    per_cpu_boost_loop (boost_text enabled) (online_cpus m) 0 0 fs1
              in (total_attempts > 0 \<and> success_count = total_attempts, fs2))"
    by (simp add: switch_boost_def fs1_def case_prod_unfold Let_def)
  moreover have "touches_only {CpufreqBoost} fs fs1"
    unfolding fs1_def by (rule write_text_touches) simp
  ultimately show ?thesis by blast
qed

lemma set_cpu_boost_per_policy:
  assumes "\<not> path_exists fs IntelNoTurbo"
    and "\<not> path_exists fs CpufreqBoost \<or> wfail fs CpufreqBoost"
  shows "(fst (set_cpu_boost m enabled fs) \<longleftrightarrow>
            boost_targets fs (online_cpus m) \<noteq> []
            \<and> (\<forall>c \<in> set (boost_targets fs (online_cpus m)). \<not> wfail fs (PolicyBoost c)))
       \<and> (\<forall>c \<in> set (boost_targets fs (online_cpus m)).
            (PolicyBoost c, boost_text enabled) \<in> set (wlog (snd (set_cpu_boost m enabled fs)))
            \<and> (\<not> wfail fs (PolicyBoost c) \<longrightarrow>
                 files (snd (set_cpu_boost m enabled fs)) (PolicyBoost c)
                   = Some (boost_text enabled)))"
proof -
  let ?v = "boost_text enabled"
  from switch_boost_per_policy[OF assms, of m enabled]
  obtain fs1 where t1: "touches_only {CpufreqBoost} fs fs1"
    and sw: "switch_boost m enabled fs =
             (let (success_count, total_attempts, fs2) =
                    per_cpu_boost_loop ?v (online_cpus m) 0 0 fs1
              in (total_attempts > 0 \<and> success_count = total_attempts, fs2))"
    by blast
  define L where "L = per_cpu_boost_loop ?v (online_cpus m) 0 0 fs1"
  define fs2 where "fs2 = snd (snd L)"
  define tg where "tg = boost_targets fs (online_cpus m)"
  have tg1: "boost_targets fs1 (online_cpus m) = tg"
    by (simp add: tg_def boost_targets_def touches_only_exists[OF t1])
  have wf1: "wfail fs1 = wfail fs" using t1 by (rule touches_only_same)
  have ok: "fst (switch_boost m enabled fs) \<longleftrightarrow> tg \<noteq> [] \<and> (\<forall>c\<in>set tg. \<not> wfail fs (PolicyBoost c))"
    using per_cpu_boost_loop_total[of ?v "online_cpus m" 0 0 fs1]
      per_cpu_boost_loop_success[of ?v "online_cpus m" 0 0 fs1]
      length_filter_all[of "\<lambda>c. \<not> wfail fs (PolicyBoost c)" tg]
    by (auto simp: sw case_prod_unfold Let_def tg1 wf1)
  have snd_sw: "snd (switch_boost m enabled fs) = fs2"
    by (simp add: sw fs2_def L_def case_prod_unfold Let_def)
  have log2: "wlog fs2 = wlog fs1 @ map (\<lambda>c. (PolicyBoost c, ?v)) tg"
    unfolding fs2_def L_def using per_cpu_boost_loop_log[of ?v "online_cpus m" 0 0 fs1]
    by (simp add: tg1)
  have files2: "files fs2 (PolicyBoost c) = Some ?v"
    if "c \<in> set tg" "\<not> wfail fs (PolicyBoost c)" for c
    unfolding fs2_def L_def
    by (rule per_cpu_boost_loop_files) (simp add: tg1 wf1 that)
  define fin where "fin = snd (set_cpu_boost m enabled fs)"
  have fin_cases: "fin = fs2 \<or> fin = enforce_boost_limits m enabled fs2"
    using snd_sw by (auto simp: fin_def set_cpu_boost_def case_prod_unfold Let_def)
  have t3: "touches_only all_limit_files fs2 fin"
    using fin_cases touches_only_refl enforce_boost_limits_touches by auto
  have fst_eq: "fst (set_cpu_boost m enabled fs) = fst (switch_boost m enabled fs)"
    by (simp add: set_cpu_boost_def case_prod_unfold Let_def)
  have inlog: "(PolicyBoost c, ?v) \<in> set (wlog fin)" if "c \<in> set tg" for c
  proof -
    from t3 obtain l where "wlog fin = wlog fs2 @ l" by (rule touches_only_log)
    then show ?thesis using that by (simp add: log2)
  qed
  have infiles: "files fin (PolicyBoost c) = Some ?v"
    if "c \<in> set tg" "\<not> wfail fs (PolicyBoost c)" for c
  proof -
    have "PolicyBoost c \<notin> all_limit_files" by (auto simp: all_limit_files_def)
    then have "files fin (PolicyBoost c) = files fs2 (PolicyBoost c)"
      using t3 by (rule touches_only_files[rotated])
    then show ?thesis using files2[OF that] by simp
  qed
  show ?thesis
    using ok inlog infiles unfolding fst_eq fin_def[symmetric] tg_def[symmetric] by simp
qed

text \<open>
  C5. With no \<^verbatim>\<open>no_turbo\<close> file, and the global \<^verbatim>\<open>cpufreq/boost\<close> file absent or refusing
  the write, \<^verbatim>\<open>set_cpu_boost\<close> writes the per-policy boost file of every online CPU that
  has one and returns true exactly when there is such a file and none of these writes
  fails. Whatever it returns, each of these writes is in the journal, and each file that
  accepted the write holds the new value: a false result does not undo them.
\<close>

theorem set_cpu_boost_strict_per_policy:
  assumes "\<not> path_exists fs IntelNoTurbo"
    and "\<not> path_exists fs CpufreqBoost \<or> wfail fs CpufreqBoost"
  shows "(fst (set_cpu_boost m enabled fs) \<longleftrightarrow>
            boost_targets fs (online_cpus m) \<noteq> []
            \<and> (\<forall>c \<in> set (boost_targets fs (online_cpus m)). \<not> wfail fs (PolicyBoost c)))
       \<and> (\<forall>c \<in> set (boost_targets fs (online_cpus m)).
            (PolicyBoost c, boost_text enabled) \<in> set (wlog (snd (set_cpu_boost m enabled fs)))
            \<and> (\<not> wfail fs (PolicyBoost c) \<longrightarrow>
                 files (snd (set_cpu_boost m enabled fs)) (PolicyBoost c)
                   = Some (boost_text enabled)))"
  using assms by (rule set_cpu_boost_per_policy)

lemma policy_tree_facts:
  "\<not> path_exists policy_tree IntelNoTurbo" "\<not> path_exists policy_tree CpufreqBoost"
  "boost_targets policy_tree (online_cpus (manager_of [0, 1, 2, 3])) = [0, 1, 2, 3]"
  "wfail policy_tree = (\<lambda>p. p = PolicyBoost 2)"
  by (simp_all add: policy_tree_def tree_eval)

theorem set_cpu_boost_strict_per_policy_witness:
  "\<not> path_exists policy_tree IntelNoTurbo \<and> \<not> path_exists policy_tree CpufreqBoost
   \<and> \<not> fst (set_cpu_boost (manager_of [0, 1, 2, 3]) False policy_tree)
   \<and> files (snd (set_cpu_boost (manager_of [0, 1, 2, 3]) False policy_tree)) (PolicyBoost 0) = Some ''0''
   \<and> files (snd (set_cpu_boost (manager_of [0, 1, 2, 3]) False policy_tree)) (PolicyBoost 1) = Some ''0''
   \<and> files (snd (set_cpu_boost (manager_of [0, 1, 2, 3]) False policy_tree)) (PolicyBoost 3) = Some ''0''"
  using set_cpu_boost_strict_per_policy[OF policy_tree_facts(1) disjI1[OF policy_tree_facts(2)],
          of "manager_of [0, 1, 2, 3]" False, unfolded policy_tree_facts(3,4)]
        policy_tree_facts(1,2)
  by (simp add: boost_text_def)

lemma policy_tree_run:
  "files (snd (set_cpu_boost (manager_of [0, 1, 2, 3]) False policy_tree)) (PolicyBoost 2) = Some ''1''"
  by (simp add: set_cpu_boost_def switch_boost_def policy_tree_def tree_eval boost_text_def)





subsection \<open>Governor and energy-performance preference\<close>

lemma file_targets_simps [simp]:
  "file_targets file fs [] = []"
  "file_targets file fs (cpu # cpus) =
     (if path_exists fs (file cpu) then cpu # file_targets file fs cpus
      else file_targets file fs cpus)"
  "file_targets file (snd (write_text p v fs)) cpus = file_targets file fs cpus"
  by (simp_all add: file_targets_def)

lemma write_all_success:
  "fst (write_all file v cpus success fs) \<longleftrightarrow>
     success \<and> (\<forall>c \<in> set (file_targets file fs cpus). \<not> wfail fs (file c))"
  by (induction cpus arbitrary: success fs)
     (auto simp: case_prod_unfold Let_def write_text_ok_exists)

lemma write_all_log:
  "wlog (snd (write_all file v cpus success fs)) =
     wlog fs @ map (\<lambda>c. (file c, v)) (file_targets file fs cpus)"
  by (induction cpus arbitrary: success fs)
     (simp_all add: case_prod_unfold Let_def write_text_log)

lemma write_all_files:
  "files fs (file c) = Some v
     \<or> (c \<in> set (file_targets file fs cpus) \<and> \<not> wfail fs (file c))
   \<Longrightarrow> files (snd (write_all file v cpus success fs)) (file c) = Some v"
proof (induction cpus arbitrary: success fs)
  case Nil
  then show ?case by simp
next
  case (Cons cpu cpus)
  show ?case
  proof (cases "path_exists fs (file cpu)")
    case False
    then show ?thesis using Cons.prems Cons.IH[of fs] by auto
  next
    case True
    define fs1 where "fs1 = snd (write_text (file cpu) v fs)"
    have "files fs1 (file c) = Some v
          \<or> (c \<in> set (file_targets file fs1 cpus) \<and> \<not> wfail fs1 (file c))"
      using Cons.prems True
      by (auto simp: fs1_def write_text_files path_exists_def)
    then have "files (snd (write_all file v cpus
                 (success \<and> fst (write_text (file cpu) v fs)) fs1)) (file c) = Some v"
      by (rule Cons.IH)
    then show ?thesis using True by (simp add: case_prod_unfold Let_def fs1_def)
  qed
qed

lemma fallback_governor_powersave:
  "governor \<notin> set available \<Longrightarrow> fallback_governor available governor = ''powersave''"
  by (simp add: fallback_governor_def governor_mapping_def)

lemma set_governor_rejects:
  "governor \<notin> set (get_available_governors m fs) \<Longrightarrow> set_governor m governor fs = (False, fs)"
  by (simp add: set_governor_def)

lemma plugin_governor_fallback:
  assumes "plugin_available_governors fs = Some available" and "governor \<notin> set available"
  shows "(fst (plugin_set_governor pg governor fs) \<longleftrightarrow>
            (\<forall>c \<in> set (file_targets ScalingGovernor fs (plugin_get_online_cpus fs)).
                \<not> wfail fs (ScalingGovernor c)))
       \<and> fst (snd (plugin_set_governor pg governor fs)) =
            (if fst (plugin_set_governor pg governor fs) then Some ''powersave'' else pg)
       \<and> wlog (snd (snd (plugin_set_governor pg governor fs))) =
            wlog fs @ map (\<lambda>c. (ScalingGovernor c, ''powersave''))
                        (file_targets ScalingGovernor fs (plugin_get_online_cpus fs))
       \<and> (\<forall>c \<in> set (file_targets ScalingGovernor fs (plugin_get_online_cpus fs)).
            \<not> wfail fs (ScalingGovernor c) \<longrightarrow>
            files (snd (snd (plugin_set_governor pg governor fs))) (ScalingGovernor c)
              = Some ''powersave'')"
proof -
  let ?W = "write_all ScalingGovernor ''powersave'' (plugin_get_online_cpus fs) True fs"
  have eq: "plugin_set_governor pg governor fs =
              (if fst ?W then (True, Some ''powersave'', snd ?W) else (False, pg, snd ?W))"
    using assms
    by (simp add: plugin_set_governor_def set_power_governor_def fallback_governor_powersave
          case_prod_unfold Let_def)
  show ?thesis
    unfolding eq
    using write_all_success[of ScalingGovernor "''powersave''" "plugin_get_online_cpus fs" True fs]
      write_all_log[of ScalingGovernor "''powersave''" "plugin_get_online_cpus fs" True fs]
      write_all_files[of fs ScalingGovernor _ "''powersave''" "plugin_get_online_cpus fs" True]
    by auto
qed

text \<open>
  C4, as the code has it. \<^verbatim>\<open>CPUManager.set_governor\<close> does not remap: a name that is not
  in its list of available governors is answered with false and nothing is written. The
  fallback lives in the plugin's \<^verbatim>\<open>set_governor\<close>, which forwards to
  \<^verbatim>\<open>set_power_governor\<close>: a name outside the list read there is replaced by
  \<^verbatim>\<open>powersave\<close>, which is written to the governor file of every online CPU that has one;
  the result is true exactly when none of these writes fails, and then the profile records
  \<^verbatim>\<open>powersave\<close>.
\<close>

theorem governor_fallback_where_it_lives:
  assumes "plugin_available_governors fs = Some available" and "governor \<notin> set available"
  shows "(governor \<notin> set (get_available_governors m fs) \<longrightarrow>
            set_governor m governor fs = (False, fs))
       \<and> (fst (plugin_set_governor pg governor fs) \<longleftrightarrow>
            (\<forall>c \<in> set (file_targets ScalingGovernor fs (plugin_get_online_cpus fs)).
                \<not> wfail fs (ScalingGovernor c)))
       \<and> fst (snd (plugin_set_governor pg governor fs)) =
            (if fst (plugin_set_governor pg governor fs) then Some ''powersave'' else pg)
       \<and> wlog (snd (snd (plugin_set_governor pg governor fs))) =
            wlog fs @ map (\<lambda>c. (ScalingGovernor c, ''powersave''))
                        (file_targets ScalingGovernor fs (plugin_get_online_cpus fs))
       \<and> (\<forall>c \<in> set (file_targets ScalingGovernor fs (plugin_get_online_cpus fs)).
            \<not> wfail fs (ScalingGovernor c) \<longrightarrow>
            files (snd (snd (plugin_set_governor pg governor fs))) (ScalingGovernor c)
              = Some ''powersave'')"
  using plugin_governor_fallback[OF assms] set_governor_rejects by simp

lemma gov_tree_facts:
  "plugin_available_governors gov_tree = Some [''performance'', ''powersave'']"
  "get_available_governors (manager_of [0]) gov_tree = [''powersave'', ''performance'']"
  "plugin_get_online_cpus gov_tree = [0]"
  "file_targets ScalingGovernor gov_tree [0] = [0]"
  "wfail gov_tree = (\<lambda>_. False)"
  by (simp_all add: plugin_available_governors_def get_available_governors_def
        plugin_get_online_cpus_def gov_tree_def tree_eval text_eval split_ws_def
        parse_range_def cpu_of_text_def)

theorem governor_fallback_where_it_lives_witness:
  "plugin_available_governors gov_tree = Some [''performance'', ''powersave'']
   \<and> ''ondemand'' \<notin> set [''performance'', ''powersave'']
   \<and> set_governor (manager_of [0]) ''ondemand'' gov_tree = (False, gov_tree)
   \<and> fst (plugin_set_governor None ''ondemand'' gov_tree)
   \<and> fst (snd (plugin_set_governor None ''ondemand'' gov_tree)) = Some ''powersave''
   \<and> wlog (snd (snd (plugin_set_governor None ''ondemand'' gov_tree)))
        = [(ScalingGovernor 0, ''powersave'')]
   \<and> files (snd (snd (plugin_set_governor None ''ondemand'' gov_tree))) (ScalingGovernor 0)
        = Some ''powersave''"
proof -
  have n: "''ondemand'' \<notin> set [''performance'', ''powersave'']" by simp
  have l0: "wlog gov_tree = []" by (simp add: gov_tree_def tree_of_def)
  show ?thesis
    using governor_fallback_where_it_lives[OF gov_tree_facts(1) n, of "manager_of [0]" None,
            unfolded gov_tree_facts l0]
      gov_tree_facts(1)
    by simp
qed

text \<open>
  C4 as stated fails for \<^verbatim>\<open>CPUManager.set_governor\<close>: asked for \<^verbatim>\<open>ondemand\<close> where only
  \<^verbatim>\<open>performance\<close> and \<^verbatim>\<open>powersave\<close> are offered, it returns false and leaves the tree
  untouched.
\<close>

theorem set_governor_rejects_counterexample:
  "''ondemand'' \<notin> set (get_available_governors (manager_of [0]) gov_tree)
   \<and> set_governor (manager_of [0]) ''ondemand'' gov_tree = (False, gov_tree)"
  using set_governor_rejects[of "''ondemand''" "manager_of [0]" gov_tree]
  by (simp add: gov_tree_facts)

text \<open>
  The attribute \<^verbatim>\<open>_scaling_driver\<close> is never assigned, so the guard of \<^verbatim>\<open>set_epp\<close>
  that reads it raises as soon as the governor is \<^verbatim>\<open>performance\<close>.
\<close>

lemma init_leaves_driver_unset:
  "CPUManager_init fs = Inr m \<Longrightarrow> scaling_driver m = None"
  by (auto simp: CPUManager_init_def split: sum.splits)

lemma set_epp_unavailable:
  "epp \<notin> set (get_available_epp_options m fs) \<Longrightarrow> set_epp m epp fs = Inr (False, fs)"
  by (simp add: set_epp_def)

lemma set_epp_raises:
  assumes "scaling_driver m = None" "epp \<in> set (get_available_epp_options m fs)"
    "get_current_governor m fs = Some ''performance''"
  shows "set_epp m epp fs = Inl AttributeError"
  using assms by (simp add: set_epp_def)

lemma epp_tree_init: "CPUManager_init epp_tree = Inr (manager_of [0])"
  by (simp add: CPUManager_init_def detect_possible_cpus_def get_online_cpus_def epp_tree_def
        tree_eval text_eval cpu_of_text_def)

lemma epp_tree_facts:
  "get_available_epp_options (manager_of [0]) epp_tree =
     [''power'', ''balance_power'', ''balance_performance'', ''performance'']"
  "get_current_governor (manager_of [0]) epp_tree = Some ''performance''"
  by (simp_all add: get_available_epp_options_def get_current_governor_def epp_tree_def
        tree_eval text_eval split_ws_def)

text \<open>
  C3. The rejection of a value outside the available list holds (\<open>set_epp_unavailable\<close>).
  The rejection under the \<^verbatim>\<open>performance\<close> governor does not: on a manager fresh from
  \<^verbatim>\<open>__init__\<close>, with \<^verbatim>\<open>balance_power\<close> available and the governor at \<^verbatim>\<open>performance\<close>,
  \<^verbatim>\<open>set_epp\<close> does not return false; \<^verbatim>\<open>AttributeError\<close> leaves the function.
\<close>

theorem set_epp_attribute_error:
  "CPUManager_init epp_tree = Inr (manager_of [0])
   \<and> ''balance_power'' \<in> set (get_available_epp_options (manager_of [0]) epp_tree)
   \<and> get_current_governor (manager_of [0]) epp_tree = Some ''performance''
   \<and> set_epp (manager_of [0]) ''balance_power'' epp_tree = Inl AttributeError"
  using set_epp_raises[of "manager_of [0]" "''balance_power''" epp_tree] epp_tree_init
  by (simp add: epp_tree_facts) (simp add: manager_of_def)

subsection \<open>Core parking\<close>

lemma disable_deeper_loop_touches:
  "touches_only prep_files fs (snd (disable_deeper_loop cpu sts acc fs))"
proof (induction sts arbitrary: acc fs)
  case Nil
  then show ?case by (simp add: touches_only_refl)
next
  case (Cons s sts)
  have w: "touches_only prep_files fs (snd (write_text (CStateDisable cpu (state s)) ''1'' fs))"
    by (rule write_text_touches) (simp add: prep_files_def)
  show ?case
    using Cons.IH touches_only_trans[OF w Cons.IH]
    by (simp split: option.splits)
qed

lemma disable_deeper_loop_paths:
  "fst ` set acc \<subseteq> prep_files \<Longrightarrow>
   fst ` set (fst (disable_deeper_loop cpu sts acc fs)) \<subseteq> prep_files"
proof (induction sts arbitrary: acc fs)
  case Nil
  then show ?case by simp
next
  case (Cons s sts)
  have "fst ` set (acc @ [(CStateDisable cpu (state s), v)]) \<subseteq> prep_files" for v
    using Cons.prems by (auto simp: prep_files_def)
  then show ?case
    using Cons.IH Cons.prems by (simp split: option.splits)
qed

lemma pulse_min_frequency_touches:
  "touches_only prep_files fs (pulse_min_frequency cpu fs)"
proof -
  have m: "ScalingMaxFreq cpu \<in> prep_files" by (simp add: prep_files_def)
  show ?thesis
    unfolding pulse_min_frequency_def
    by (simp add: touches_only_refl write_text_touches[OF m] case_prod_unfold Let_def
          touches_only_trans[OF write_text_touches[OF m] write_text_touches[OF m]]
          split: option.splits)
qed

lemma restore_deeper_loop_touches:
  "fst ` set l \<subseteq> prep_files \<Longrightarrow> touches_only prep_files fs (restore_deeper_loop l fs)"
proof (induction l arbitrary: fs)
  case Nil
  then show ?case by (simp add: touches_only_refl)
next
  case (Cons a l)
  obtain p v where a: "a = (p, v)" by (cases a)
  have w: "touches_only prep_files fs (snd (write_text p v fs))"
    using Cons.prems a by (intro write_text_touches) simp
  have "touches_only prep_files (snd (write_text p v fs))
           (restore_deeper_loop l (snd (write_text p v fs)))"
    using Cons.prems by (intro Cons.IH) simp
  from touches_only_trans[OF w this] show ?case by (simp add: a)
qed

lemma force_cpu_to_cstate_touches:
  "touches_only prep_files fs (snd (force_cpu_to_cstate cpu target fs))"
proof -
  let ?av = "get_available_cstates fs cpu"
  let ?d = "disable_deeper_loop cpu ?av [] fs"
  have t1: "touches_only prep_files fs (snd ?d)" by (rule disable_deeper_loop_touches)
  have t2: "touches_only prep_files (snd ?d) (pulse_min_frequency cpu (snd ?d))"
    by (rule pulse_min_frequency_touches)
  have p: "fst ` set (fst ?d) \<subseteq> prep_files" by (rule disable_deeper_loop_paths) simp
  have t3: "touches_only prep_files (pulse_min_frequency cpu (snd ?d))
              (restore_deeper_loop (fst ?d) (pulse_min_frequency cpu (snd ?d)))"
    using p by (rule restore_deeper_loop_touches)
  note t = touches_only_trans[OF t1 touches_only_trans[OF t2 t3]]
  show ?thesis
    unfolding force_cpu_to_cstate_def
    using t by (simp add: touches_only_refl case_prod_unfold Let_def split: option.splits)
qed

lemma strip_bit [simp]: "strip ''1'' = ''1''" "strip ''0'' = ''0''"
  by (simp_all add: strip_def is_space_def)

lemma touches_only_cpu_online:
  "touches_only S fs fs' \<Longrightarrow> CpuOnline c \<notin> S \<Longrightarrow> cpu_online fs' c = cpu_online fs c"
  by (simp add: cpu_online_def touches_only_read_text)

lemma touches_only_cpu_offline:
  "touches_only S fs fs' \<Longrightarrow> CpuOnline c \<notin> S \<Longrightarrow> cpu_offline fs' c = cpu_offline fs c"
  by (simp add: cpu_offline_def touches_only_read_text)

lemma online_cpu_touches:
  "touches_only (hotplug_files {cpu}) fs (snd (online_cpu cpu fs))"
proof -
  have "cpu \<noteq> 0 \<Longrightarrow> CpuOnline cpu \<in> hotplug_files {cpu}" by (simp add: hotplug_files_def)
  then show ?thesis
    by (simp add: online_cpu_def touches_only_refl write_text_touches split: option.splits)
qed

lemma online_cpu_noop: "cpu_online fs cpu \<Longrightarrow> online_cpu cpu fs = (True, fs)"
  by (auto simp: cpu_online_def online_cpu_def read_text_def path_exists_def
           split: option.splits if_splits)

lemma online_cpu_success:
  "fst (online_cpu cpu fs) \<Longrightarrow> cpu_online (snd (online_cpu cpu fs)) cpu"
  by (auto simp: cpu_online_def online_cpu_def read_text_def path_exists_def write_text_def
           Let_def split: option.splits if_splits)

lemma online_cpu_keeps:
  assumes "cpu_online fs c" shows "cpu_online (snd (online_cpu x fs)) c"
proof (cases "x = c")
  case True
  with assms show ?thesis by (simp add: online_cpu_noop)
next
  case False
  then have "CpuOnline c \<notin> hotplug_files {x}" by (simp add: hotplug_files_def)
  with touches_only_cpu_online[OF online_cpu_touches this] assms show ?thesis by simp
qed

lemma offline_cpu_zero: "offline_cpu_with_cstate_prep 0 t fs = (False, fs)"
  by (simp add: offline_cpu_with_cstate_prep_def)

lemma offline_cpu_touches:
  "touches_only (hotplug_files {cpu} \<union> prep_files) fs
     (snd (offline_cpu_with_cstate_prep cpu t fs))"
proof (cases "cpu = 0")
  case True
  then show ?thesis by (simp add: offline_cpu_zero touches_only_refl)
next
  case False
  let ?S = "hotplug_files {cpu} \<union> prep_files"
  have o: "CpuOnline cpu \<in> ?S" using False by (simp add: hotplug_files_def)
  have f: "touches_only ?S fs (snd (force_cpu_to_cstate cpu tt fs))" for tt
    by (rule touches_only_mono[OF force_cpu_to_cstate_touches]) simp
  have w: "touches_only ?S fs (snd (write_text (CpuOnline cpu) ''0'' fs))"
    using o by (rule write_text_touches)
  have wf: "touches_only ?S fs
       (snd (write_text (CpuOnline cpu) ''0'' (snd (force_cpu_to_cstate cpu tt fs))))" for tt
    by (rule touches_only_trans[OF f write_text_touches[OF o]])
  show ?thesis
    unfolding offline_cpu_with_cstate_prep_def
    using w wf by (simp add: touches_only_refl Let_def split: option.splits)
qed

lemma offline_cpu_noop:
  "cpu_offline fs cpu \<Longrightarrow> offline_cpu_with_cstate_prep cpu t fs = (True, fs)"
  by (auto simp: cpu_offline_def offline_cpu_with_cstate_prep_def read_text_def path_exists_def
           split: option.splits if_splits)

lemma write_offline_reads_zero:
  assumes "touches_only S fs fs1" "read_text fs (CpuOnline cpu) = Some s" "cpu \<noteq> 0"
    "fst (write_text (CpuOnline cpu) ''0'' fs1)"
  shows "cpu_offline (snd (write_text (CpuOnline cpu) ''0'' fs1)) cpu"
proof -
  have "rfail fs1 = rfail fs" using assms(1) by (rule touches_only_same)
  moreover have "\<not> rfail fs (CpuOnline cpu)"
    using assms(2) by (simp add: read_text_def split: if_splits)
  ultimately show ?thesis
    using assms(3,4) by (simp add: cpu_offline_def read_text_def write_text_def Let_def split: if_splits)
qed

lemma offline_cpu_success:
  assumes "fst (offline_cpu_with_cstate_prep cpu t fs)"
  shows "cpu_offline (snd (offline_cpu_with_cstate_prep cpu t fs)) cpu"
proof -
  from assms have nz: "cpu \<noteq> 0" by (cases "cpu = 0") (simp_all add: offline_cpu_zero)
  from assms nz obtain s where s: "read_text fs (CpuOnline cpu) = Some s"
    by (auto simp: offline_cpu_with_cstate_prep_def split: option.splits if_splits)
  show ?thesis
  proof (cases "strip s = ''0''")
    case True
    then have "cpu_offline fs cpu" using s nz by (simp add: cpu_offline_def)
    then show ?thesis by (simp add: offline_cpu_noop)
  next
    case False
    define fs1 where "fs1 = (case (case t of None \<Rightarrow> get_deepest_available_cstate fs cpu
                                   | Some t \<Rightarrow> Some t) of
                             None \<Rightarrow> fs
                           | Some t \<Rightarrow>
                               if t = [] then fs else snd (force_cpu_to_cstate cpu (Some t) fs))"
    have eq: "offline_cpu_with_cstate_prep cpu t fs = write_text (CpuOnline cpu) ''0'' fs1"
      using False s nz assms
      by (auto simp: offline_cpu_with_cstate_prep_def fs1_def Let_def split: if_splits)
    have t1: "touches_only prep_files fs fs1"
      by (simp add: fs1_def touches_only_refl force_cpu_to_cstate_touches split: option.splits)
    show ?thesis
      unfolding eq using assms[unfolded eq] by (rule write_offline_reads_zero[OF t1 s nz])
  qed
qed

lemma offline_cpu_keeps:
  assumes "cpu_offline fs c" shows "cpu_offline (snd (offline_cpu_with_cstate_prep x t fs)) c"
proof (cases "x = c")
  case True
  with assms show ?thesis by (simp add: offline_cpu_noop)
next
  case False
  then have "CpuOnline c \<notin> hotplug_files {x} \<union> prep_files"
    by (simp add: hotplug_files_def prep_files_def)
  with touches_only_cpu_offline[OF offline_cpu_touches this] assms show ?thesis by simp
qed

lemma offline_cpu_keeps_online:
  assumes "cpu_online fs c" "x \<noteq> c"
  shows "cpu_online (snd (offline_cpu_with_cstate_prep x t fs)) c"
proof -
  have "CpuOnline c \<notin> hotplug_files {x} \<union> prep_files"
    using assms(2) by (simp add: hotplug_files_def prep_files_def)
  with touches_only_cpu_online[OF offline_cpu_touches this] assms show ?thesis by simp
qed

lemma hotplug_files_mono: "A \<subseteq> B \<Longrightarrow> hotplug_files A \<subseteq> hotplug_files B"
  by (auto simp: hotplug_files_def)

lemma online_siblings_loop_touches:
  "touches_only (hotplug_files (set xs)) fs (snd (online_siblings_loop xs s fs))"
proof (induction xs arbitrary: s fs)
  case Nil
  then show ?case by (simp add: touches_only_refl)
next
  case (Cons x xs)
  let ?S = "hotplug_files (set (x # xs))"
  have w: "touches_only ?S fs (snd (online_cpu x fs))"
    by (rule touches_only_mono[OF online_cpu_touches hotplug_files_mono]) simp
  have ih: "touches_only ?S f (snd (online_siblings_loop xs b f))" for b f
    by (rule touches_only_mono[OF Cons.IH hotplug_files_mono]) auto
  show ?case
    using ih touches_only_trans[OF w ih]
    by (cases "x = 0") (simp_all add: case_prod_unfold Let_def)
qed

lemma online_siblings_loop_append:
  "online_siblings_loop (xs @ ys) s fs =
     online_siblings_loop ys (fst (online_siblings_loop xs s fs))
       (snd (online_siblings_loop xs s fs))"
  by (induction xs arbitrary: s fs) (simp_all add: case_prod_unfold Let_def)

lemma online_siblings_loop_flag: "fst (online_siblings_loop xs s fs) \<Longrightarrow> s"
  by (induction xs arbitrary: s fs) (auto simp: case_prod_unfold Let_def split: if_splits)

lemma online_siblings_loop_keeps:
  "cpu_online fs c \<Longrightarrow> cpu_online (snd (online_siblings_loop xs s fs)) c"
  by (induction xs arbitrary: s fs) (simp_all add: case_prod_unfold Let_def online_cpu_keeps)

lemma online_siblings_loop_success:
  "fst (online_siblings_loop xs s fs) \<Longrightarrow> c \<in> set xs \<Longrightarrow>
   cpu_online (snd (online_siblings_loop xs s fs)) c"
proof (induction xs arbitrary: s fs)
  case Nil
  then show ?case by simp
next
  case (Cons x xs)
  show ?case
  proof (cases "x = 0")
    case True
    then show ?thesis using Cons
      by (cases "c = 0") (auto simp: cpu_online_def)
  next
    case False
    let ?r = "online_cpu x fs"
    have run: "online_siblings_loop (x # xs) s fs =
                 online_siblings_loop xs (if \<not> fst ?r then False else s) (snd ?r)"
      using False by (simp add: case_prod_unfold Let_def)
    have ok: "fst ?r"
      using Cons.prems(1) online_siblings_loop_flag unfolding run by (metis (full_types))
    show ?thesis
    proof (cases "c = x")
      case True
      have "cpu_online (snd ?r) x" using ok by (rule online_cpu_success)
      then show ?thesis unfolding run True by (rule online_siblings_loop_keeps)
    next
      case False
      then have "c \<in> set xs" using Cons.prems(2) by simp
      with Cons.IH Cons.prems(1) show ?thesis unfolding run by simp
    qed
  qed
qed

lemma online_siblings_loop_noop:
  "\<forall>c \<in> set xs. cpu_online fs c \<Longrightarrow> online_siblings_loop xs s fs = (s, fs)"
  by (induction xs arbitrary: s fs) (simp_all add: online_cpu_noop)

lemma offline_siblings_loop_touches:
  "touches_only (hotplug_files (set ys) \<union> prep_files) fs (snd (offline_siblings_loop ys s fs))"
proof (induction ys arbitrary: s fs)
  case Nil
  then show ?case by (simp add: touches_only_refl)
next
  case (Cons y ys)
  let ?S = "hotplug_files (set (y # ys)) \<union> prep_files"
  have "hotplug_files {y} \<subseteq> hotplug_files (set (y # ys))"
    by (rule hotplug_files_mono) simp
  then have w: "touches_only ?S fs (snd (offline_cpu_with_cstate_prep y None fs))"
    by (intro touches_only_mono[OF offline_cpu_touches]) auto
  have "hotplug_files (set ys) \<subseteq> hotplug_files (set (y # ys))"
    by (rule hotplug_files_mono) auto
  then have ih: "touches_only ?S f (snd (offline_siblings_loop ys b f))" for b f
    by (intro touches_only_mono[OF Cons.IH]) auto
  show ?case
    using ih touches_only_trans[OF w ih]
    by (cases "y = 0") (simp_all add: case_prod_unfold Let_def)
qed

lemma offline_siblings_loop_append:
  "offline_siblings_loop (xs @ ys) s fs =
     offline_siblings_loop ys (fst (offline_siblings_loop xs s fs))
       (snd (offline_siblings_loop xs s fs))"
  by (induction xs arbitrary: s fs) (simp_all add: case_prod_unfold Let_def)

lemma offline_siblings_loop_flag: "fst (offline_siblings_loop ys s fs) \<Longrightarrow> s"
  by (induction ys arbitrary: s fs) (auto simp: case_prod_unfold Let_def split: if_splits)

lemma offline_siblings_loop_keeps:
  "cpu_offline fs c \<Longrightarrow> cpu_offline (snd (offline_siblings_loop ys s fs)) c"
  by (induction ys arbitrary: s fs) (simp_all add: case_prod_unfold Let_def offline_cpu_keeps)

lemma offline_siblings_loop_keeps_online:
  assumes "cpu_online fs c" "c \<notin> set ys"
  shows "cpu_online (snd (offline_siblings_loop ys s fs)) c"
proof -
  have "CpuOnline c \<notin> hotplug_files (set ys) \<union> prep_files"
    using assms(2) by (auto simp: hotplug_files_def prep_files_def)
  with touches_only_cpu_online[OF offline_siblings_loop_touches this] assms(1)
  show ?thesis by simp
qed

lemma offline_siblings_loop_success:
  "fst (offline_siblings_loop ys s fs) \<Longrightarrow> c \<in> set ys \<Longrightarrow> c \<noteq> 0 \<Longrightarrow>
   cpu_offline (snd (offline_siblings_loop ys s fs)) c"
proof (induction ys arbitrary: s fs)
  case Nil
  then show ?case by simp
next
  case (Cons y ys)
  show ?case
  proof (cases "y = 0")
    case True
    then show ?thesis using Cons by auto
  next
    case False
    let ?r = "offline_cpu_with_cstate_prep y None fs"
    have run: "offline_siblings_loop (y # ys) s fs =
                 offline_siblings_loop ys (if \<not> fst ?r then False else s) (snd ?r)"
      using False by (simp add: case_prod_unfold Let_def)
    have ok: "fst ?r"
      using Cons.prems(1) offline_siblings_loop_flag unfolding run by (metis (full_types))
    show ?thesis
    proof (cases "c = y")
      case True
      have "cpu_offline (snd ?r) y" using ok by (rule offline_cpu_success)
      then show ?thesis unfolding run True by (rule offline_siblings_loop_keeps)
    next
      case False
      then have "c \<in> set ys" using Cons.prems(2) by simp
      with Cons.IH Cons.prems(1,3) show ?thesis unfolding run by simp
    qed
  qed
qed

lemma offline_siblings_loop_noop:
  "\<forall>c \<in> set ys. c \<noteq> 0 \<longrightarrow> cpu_offline fs c \<Longrightarrow> offline_siblings_loop ys s fs = (s, fs)"
  by (induction ys arbitrary: s fs) (simp_all add: offline_cpu_noop)

lemma init_idem: "topology_initialized m \<Longrightarrow> initialize_cpu_topology m fs = (m, fs)"
  by (simp add: initialize_cpu_topology_def)

lemma get_cpu_siblings_init:
  "topology_initialized m \<Longrightarrow> get_cpu_siblings m fs c = (siblings_of m c, m, fs)"
  by (simp add: get_cpu_siblings_def siblings_of_def split: option.splits)

lemma get_primary_init:
  "topology_initialized m \<Longrightarrow> get_primary_cpus_by_physical_core m fs = (primaries m, m, fs)"
  by (simp add: get_primary_cpus_by_physical_core_def primaries_def split: option.splits)

lemma is_smt_enabled_init:
  "topology_initialized m \<Longrightarrow> is_smt_enabled m fs = (fst (is_smt_enabled m fs), m, fs)"
  by (simp add: is_smt_enabled_def split: option.splits)

lemma online_siblings_loop_state:
  "snd (online_siblings_loop xs s fs) = snd (online_siblings_loop xs True fs)"
  by (induction xs arbitrary: s fs) (simp_all add: case_prod_unfold Let_def)

lemma online_siblings_loop_result:
  "fst (online_siblings_loop xs s fs) \<longleftrightarrow> s \<and> fst (online_siblings_loop xs True fs)"
proof (induction xs arbitrary: s fs)
  case Nil
  then show ?case by simp
next
  case (Cons x xs)
  show ?case
    using Cons.IH[of s] Cons.IH[of False] Cons.IH[of True]
    by (cases "x = 0") (auto simp: case_prod_unfold Let_def)
qed

lemma offline_siblings_loop_state:
  "snd (offline_siblings_loop xs s fs) = snd (offline_siblings_loop xs True fs)"
  by (induction xs arbitrary: s fs) (simp_all add: case_prod_unfold Let_def)

lemma offline_siblings_loop_result:
  "fst (offline_siblings_loop xs s fs) \<longleftrightarrow> s \<and> fst (offline_siblings_loop xs True fs)"
proof (induction xs arbitrary: s fs)
  case Nil
  then show ?case by simp
next
  case (Cons x xs)
  show ?case
    using Cons.IH[of s] Cons.IH[of False] Cons.IH[of True]
    by (cases "x = 0") (auto simp: case_prod_unfold Let_def)
qed

lemma online_physical_core_init:
  assumes "topology_initialized m"
  shows "online_physical_core m fs p =
           (fst (online_siblings_loop (siblings_of m p) True fs), m,
            snd (online_siblings_loop (siblings_of m p) True fs))"
  by (simp add: online_physical_core_def get_cpu_siblings_init[OF assms] case_prod_unfold Let_def)

lemma offline_physical_core_init:
  assumes "topology_initialized m"
  shows "offline_physical_core m fs p =
           (fst (offline_siblings_loop (siblings_of m p) True fs), m,
            snd (offline_siblings_loop (siblings_of m p) True fs))"
  by (simp add: offline_physical_core_def get_cpu_siblings_init[OF assms] case_prod_unfold Let_def)

lemma online_cores_loop_flat:
  assumes "topology_initialized m"
  shows "online_cores_loop prim smt idx s m fs =
           (fst (online_siblings_loop (concat (map (\<lambda>i. core_cpus m smt (prim ! i)) idx)) s fs), m,
            snd (online_siblings_loop (concat (map (\<lambda>i. core_cpus m smt (prim ! i)) idx)) s fs))"
proof (induction idx arbitrary: s fs)
  case Nil
  then show ?case by simp
next
  case (Cons i idx)
  let ?g = "core_cpus m smt (prim ! i)"
  let ?r = "online_siblings_loop ?g True fs"
  have step: "online_cores_loop prim smt (i # idx) s m fs =
                online_cores_loop prim smt idx (if \<not> fst ?r then False else s) m (snd ?r)"
    by (cases smt; cases "prim ! i = 0")
       (simp_all add: core_cpus_def online_physical_core_init[OF assms] Let_def case_prod_unfold)
  have "online_siblings_loop ?g s fs = (if \<not> fst ?r then False else s, snd ?r)"
    using online_siblings_loop_result[of ?g s fs] online_siblings_loop_state[of ?g s fs]
    by (cases "online_siblings_loop ?g s fs") auto
  then show ?case
    unfolding step Cons.IH by (simp add: online_siblings_loop_append)
qed

lemma offline_cores_loop_flat:
  assumes "topology_initialized m"
  shows "offline_cores_loop prim smt idx s m fs =
           (fst (offline_siblings_loop
                  (concat (map (\<lambda>i. if prim ! i = 0 then [] else core_cpus m smt (prim ! i)) idx)) s fs),
            m,
            snd (offline_siblings_loop
                  (concat (map (\<lambda>i. if prim ! i = 0 then [] else core_cpus m smt (prim ! i)) idx)) s fs))"
proof (induction idx arbitrary: s fs)
  case Nil
  then show ?case by simp
next
  case (Cons i idx)
  let ?g = "if prim ! i = 0 then [] else core_cpus m smt (prim ! i)"
  let ?r = "offline_siblings_loop ?g True fs"
  have step: "offline_cores_loop prim smt (i # idx) s m fs =
                offline_cores_loop prim smt idx (if \<not> fst ?r then False else s) m (snd ?r)"
    by (cases smt; cases "prim ! i = 0")
       (simp_all add: core_cpus_def offline_physical_core_init[OF assms] Let_def case_prod_unfold)
  have "offline_siblings_loop ?g s fs = (if \<not> fst ?r then False else s, snd ?r)"
    using offline_siblings_loop_result[of ?g s fs] offline_siblings_loop_state[of ?g s fs]
    by (cases "offline_siblings_loop ?g s fs") auto
  then show ?case
    unfolding step Cons.IH by (simp add: offline_siblings_loop_append)
qed

subsection \<open>Frequency limits, accesses recorded\<close>


lemma ask_both_exist_fst:
  "fst (ask_both_exist fs p q al) \<longleftrightarrow> path_exists fs p \<and> path_exists fs q"
  by (simp add: ask_both_exist_def ask_exists_def)

lemma get_cpu_frequency_range_io_fst:
  "fst (get_cpu_frequency_range_io fs al) = get_cpu_frequency_range fs"
  using ask_both_exist_fst[of fs CpuinfoMinFreq CpuinfoMaxFreq al]
  by (auto simp: get_cpu_frequency_range_io_def get_cpu_frequency_range_def ask_int_def
        case_prod_unfold Let_def split: option.splits)

lemma apply_limits_cpu_io_forget:
  "forget_accesses (apply_limits_cpu_io cpu min_f max_f fs al) = apply_limits_cpu cpu min_f max_f fs"
  by (auto simp: forget_accesses_def apply_limits_cpu_io_def apply_limits_cpu_def ask_int_def
        case_prod_unfold Let_def split: option.splits)

lemma limits_loop_io_forget:
  "(let (sc', ta', fs', al') = limits_loop_io cpus min_f max_f sc ta fs al in (sc', ta', fs'))
     = limits_loop cpus min_f max_f sc ta fs"
proof (induction cpus arbitrary: sc ta fs al)
  case Nil
  then show ?case by simp
next
  case (Cons cpu cpus)
  let ?b = "ask_both_exist fs (ScalingMinFreq cpu) (ScalingMaxFreq cpu) al"
  let ?a = "apply_limits_cpu_io cpu min_f max_f fs (snd ?b)"
  have a: "apply_limits_cpu cpu min_f max_f fs = (fst ?a, fst (snd ?a))"
    using apply_limits_cpu_io_forget[of cpu min_f max_f fs "snd ?b"]
    by (simp add: forget_accesses_def)
  show ?case
    using Cons.IH ask_both_exist_fst[of fs "ScalingMinFreq cpu" "ScalingMaxFreq cpu" al]
    by (simp add: case_prod_unfold Let_def a)
qed

lemma set_cpu_frequency_limits_io_forget:
  "forget_accesses (set_cpu_frequency_limits_io m min_f max_f fs al)
     = set_cpu_frequency_limits m min_f max_f fs"
proof -
  let ?g = "get_cpu_frequency_range_io fs al"
  have g: "get_cpu_frequency_range fs = fst ?g" by (simp add: get_cpu_frequency_range_io_fst)
  have l: "limits_loop (online_cpus m) min_f max_f 0 0 fs =
             (let (sc', ta', fs', al') = limits_loop_io (online_cpus m) min_f max_f 0 0 fs (snd ?g)
              in (sc', ta', fs'))"
    by (simp add: limits_loop_io_forget)
  show ?thesis
    unfolding set_cpu_frequency_limits_io_def set_cpu_frequency_limits_def g l
    by (auto simp: forget_accesses_def case_prod_unfold Let_def split: option.splits)
qed

text \<open>
  C10. Called with neither a minimum nor a maximum, \<^verbatim>\<open>set_cpu_frequency_limits\<close> returns
  false at once: the journal of accesses is the one it was given, so no file has been
  tested for existence or read, and the tree, with its journal of writes and the limits of
  every CPU, is the one it was given.
\<close>

theorem set_limits_none_none_untouched:
  "set_cpu_frequency_limits_io m None None fs al = (False, fs, al)"
  by (simp add: set_cpu_frequency_limits_io_def)

text \<open>
  With a limit in the request the journal of accesses does grow: the first thing looked at
  is \<^verbatim>\<open>cpuinfo_min_freq\<close>. A rejected request on the example tree has tested and read the
  two range files, and nothing else.
\<close>

lemma ask_both_exist_grows:
  "\<exists>l. snd (ask_both_exist fs p q al) = al @ Exists p # l"
  by (simp add: ask_both_exist_def ask_exists_def)

lemma get_cpu_frequency_range_io_grows:
  "\<exists>l. snd (get_cpu_frequency_range_io fs al) = al @ Exists CpuinfoMinFreq # l"
proof -
  obtain l where l: "snd (ask_both_exist fs CpuinfoMinFreq CpuinfoMaxFreq al)
                       = al @ Exists CpuinfoMinFreq # l"
    using ask_both_exist_grows by blast
  show ?thesis
    by (simp add: get_cpu_frequency_range_io_def ask_int_def case_prod_unfold Let_def l
             split: option.splits)
qed

lemma apply_limits_cpu_io_grows:
  "\<exists>l. snd (snd (apply_limits_cpu_io cpu min_f max_f fs al)) = al @ l"
  by (simp add: apply_limits_cpu_io_def ask_int_def case_prod_unfold Let_def
           split: option.splits)

lemma limits_loop_io_grows:
  "\<exists>l. snd (snd (snd (limits_loop_io cpus min_f max_f sc ta fs al))) = al @ l"
proof (induction cpus arbitrary: sc ta fs al)
  case Nil
  then show ?case by simp
next
  case (Cons cpu cpus)
  let ?b = "ask_both_exist fs (ScalingMinFreq cpu) (ScalingMaxFreq cpu) al"
  let ?a = "apply_limits_cpu_io cpu min_f max_f fs (snd ?b)"
  obtain l1 where l1: "snd ?b = al @ l1"
    using ask_both_exist_grows[of fs "ScalingMinFreq cpu" "ScalingMaxFreq cpu" al] by auto
  obtain l2 where l2: "snd (snd ?a) = snd ?b @ l2"
    using apply_limits_cpu_io_grows by blast
  show ?case
  proof (cases "fst ?b")
    case False
    obtain l3 where "snd (snd (snd (limits_loop_io cpus min_f max_f sc ta fs (snd ?b))))
                       = snd ?b @ l3"
      using Cons.IH by blast
    then show ?thesis using False l1 by (simp add: case_prod_unfold Let_def)
  next
    case True
    obtain l3 where "snd (snd (snd (limits_loop_io cpus min_f max_f
                        (if fst ?a then sc + 1 else sc) (ta + 1) (fst (snd ?a)) (snd (snd ?a)))))
                       = snd (snd ?a) @ l3"
      using Cons.IH by blast
    then show ?thesis using True l1 l2 by (simp add: case_prod_unfold Let_def)
  qed
qed

lemma set_limits_io_starts_with_range:
  assumes "min_f \<noteq> None \<or> max_f \<noteq> None"
  shows "\<exists>l. snd (snd (set_cpu_frequency_limits_io m min_f max_f fs al))
               = al @ Exists CpuinfoMinFreq # l"
proof -
  let ?g = "get_cpu_frequency_range_io fs al"
  obtain l1 where l1: "snd ?g = al @ Exists CpuinfoMinFreq # l1"
    using get_cpu_frequency_range_io_grows by blast
  obtain l2 where l2: "snd (snd (snd (limits_loop_io (online_cpus m) min_f max_f 0 0 fs (snd ?g))))
                         = snd ?g @ l2"
    using limits_loop_io_grows by blast
  show ?thesis
    using assms l1 l2
    by (auto simp: set_cpu_frequency_limits_io_def case_prod_unfold Let_def split: option.splits)
qed

lemma freq_tree_rejected_accesses:
  "set_cpu_frequency_limits_io (manager_of [0]) (Some 100000) None freq_tree [] =
     (False, freq_tree, [Exists CpuinfoMinFreq, Exists CpuinfoMaxFreq,
                         Read CpuinfoMinFreq, Read CpuinfoMaxFreq])"
  by (simp add: set_cpu_frequency_limits_io_def get_cpu_frequency_range_io_def
        ask_both_exist_def ask_exists_def ask_int_def freq_tree_def tree_eval text_eval)

lemma map_nth_take: "t \<le> length xs \<Longrightarrow> map ((!) xs) [0 ..< t] = take t xs"
proof -
  assume "t \<le> length xs"
  then have "take t [0 ..< length xs] = [0 ..< t]" by (simp add: take_upt)
  then have "map ((!) xs) [0 ..< t] = take t (map ((!) xs) [0 ..< length xs])"
    by (simp add: take_map)
  then show ?thesis by (simp add: map_nth)
qed

lemma map_nth_drop: "map ((!) xs) [t ..< length xs] = drop t xs"
proof -
  have "drop t [0 ..< length xs] = [t ..< length xs]" by (simp add: drop_upt)
  then have "map ((!) xs) [t ..< length xs] = drop t (map ((!) xs) [0 ..< length xs])"
    by (simp add: drop_map)
  then show ?thesis by (simp add: map_nth)
qed

lemma concat_skip_zero:
  "concat (map (\<lambda>p. if p = 0 then [] else g p) ps) = concat (map g (filter (\<lambda>p. p \<noteq> (0::nat)) ps))"
  by (induction ps) simp_all

lemma primaries_nonempty: "primaries m \<noteq> []"
  by (simp add: primaries_def split: option.splits)

lemma clamp_target_bounds:
  "0 < n \<Longrightarrow> 1 \<le> clamp_target tc n \<and> clamp_target tc n \<le> n"
  by (auto simp: clamp_target_def Let_def)

lemma clamp_target_id: "1 \<le> tc \<Longrightarrow> tc \<le> int n \<Longrightarrow> clamp_target tc n = nat tc"
  by (auto simp: clamp_target_def Let_def)

lemma kept_cpus_flat:
  assumes "t \<le> length (primaries m)"
  shows "concat (map (\<lambda>i. core_cpus m smt (primaries m ! i)) [0 ..< t]) = kept_cpus m smt t"
proof -
  have "map (\<lambda>i. core_cpus m smt (primaries m ! i)) [0 ..< t]
          = map (core_cpus m smt) (map ((!) (primaries m)) [0 ..< t])"
    by simp
  then show ?thesis
    unfolding kept_cpus_def map_nth_take[OF assms, symmetric] by (simp add: comp_def)
qed

lemma parked_cpus_flat:
  "concat (map (\<lambda>i. if primaries m ! i = 0 then [] else core_cpus m smt (primaries m ! i))
             [t ..< length (primaries m)]) = parked_cpus m smt t"
proof -
  have "map (\<lambda>i. if primaries m ! i = 0 then [] else core_cpus m smt (primaries m ! i))
             [t ..< length (primaries m)]
        = map (\<lambda>p. if p = 0 then [] else core_cpus m smt p)
            (map ((!) (primaries m)) [t ..< length (primaries m)])"
    by simp
  then show ?thesis
    unfolding parked_cpus_def concat_skip_zero[symmetric] map_nth_drop[symmetric]
    by (simp add: comp_def)
qed

lemma set_cpu_cores_flat:
  assumes init: "topology_initialized m"
  shows "set_cpu_cores_with_cstate_optimization m tc fs =
           (fst (run_parking m (fst (is_smt_enabled m fs))
                   (clamp_target tc (length (primaries m))) fs),
            update_online_cpus m
              (snd (run_parking m (fst (is_smt_enabled m fs))
                      (clamp_target tc (length (primaries m))) fs)),
            snd (run_parking m (fst (is_smt_enabled m fs))
                   (clamp_target tc (length (primaries m))) fs))"
proof -
  let ?t = "clamp_target tc (length (primaries m))"
  have tle: "?t \<le> length (primaries m)"
    using clamp_target_bounds[of "length (primaries m)" tc] primaries_nonempty[of m]
    by simp
  have s: "is_smt_enabled m fs = (fst (is_smt_enabled m fs), m, fs)"
    by (rule is_smt_enabled_init[OF init])
  have sm: "fst (snd (is_smt_enabled m fs)) = m" "snd (snd (is_smt_enabled m fs)) = fs"
    using s by (metis fst_conv snd_conv)+
  show ?thesis
    by (simp add: set_cpu_cores_with_cstate_optimization_def get_primary_init[OF init]
          case_prod_unfold Let_def sm online_cores_loop_flat[OF init]
          offline_cores_loop_flat[OF init] kept_cpus_flat[OF tle] parked_cpus_flat
          run_parking_def)
qed

lemma cpu0_not_parking [simp]: "CpuOnline 0 \<notin> parking_files"
  by (simp add: parking_files_def hotplug_files_def prep_files_def)

lemma run_parking_touches:
  "touches_only parking_files fs (snd (run_parking m smt t fs))"
proof -
  let ?r1 = "online_siblings_loop (kept_cpus m smt t) True fs"
  have a: "touches_only parking_files fs (snd ?r1)"
    by (rule touches_only_mono[OF online_siblings_loop_touches])
       (auto simp: parking_files_def hotplug_files_def)
  have b: "touches_only parking_files (snd ?r1)
             (snd (offline_siblings_loop (parked_cpus m smt t) (fst ?r1) (snd ?r1)))"
    by (rule touches_only_mono[OF offline_siblings_loop_touches])
       (auto simp: parking_files_def hotplug_files_def)
  show ?thesis
    unfolding run_parking_def by (rule touches_only_trans[OF a b])
qed

lemma run_parking_success:
  assumes "fst (run_parking m smt t fs)"
  shows "\<forall>c \<in> set (kept_cpus m smt t). c \<notin> set (parked_cpus m smt t) \<longrightarrow>
            cpu_online (snd (run_parking m smt t fs)) c"
    and "\<forall>c \<in> set (parked_cpus m smt t). c \<noteq> 0 \<longrightarrow>
            cpu_offline (snd (run_parking m smt t fs)) c"
proof -
  let ?r1 = "online_siblings_loop (kept_cpus m smt t) True fs"
  have ok2: "fst (offline_siblings_loop (parked_cpus m smt t) (fst ?r1) (snd ?r1))"
    using assms by (simp add: run_parking_def)
  then have ok1: "fst ?r1" by (rule offline_siblings_loop_flag)
  show "\<forall>c \<in> set (kept_cpus m smt t). c \<notin> set (parked_cpus m smt t) \<longrightarrow>
            cpu_online (snd (run_parking m smt t fs)) c"
  proof (intro ballI impI)
    fix c assume c: "c \<in> set (kept_cpus m smt t)" "c \<notin> set (parked_cpus m smt t)"
    have "cpu_online (snd ?r1) c" using ok1 c(1) by (rule online_siblings_loop_success)
    then show "cpu_online (snd (run_parking m smt t fs)) c"
      unfolding run_parking_def using c(2) by (rule offline_siblings_loop_keeps_online)
  qed
  show "\<forall>c \<in> set (parked_cpus m smt t). c \<noteq> 0 \<longrightarrow>
            cpu_offline (snd (run_parking m smt t fs)) c"
    unfolding run_parking_def using ok2 offline_siblings_loop_success by blast
qed

lemma run_parking_again:
  assumes ok: "fst (run_parking m smt t fs)"
    and disj: "set (kept_cpus m smt t) \<inter> set (parked_cpus m smt t) \<subseteq> {0}"
  shows "run_parking m smt t (snd (run_parking m smt t fs)) = (True, snd (run_parking m smt t fs))"
proof -
  let ?fs = "snd (run_parking m smt t fs)"
  have on: "\<forall>c \<in> set (kept_cpus m smt t). cpu_online ?fs c"
  proof
    fix c assume c: "c \<in> set (kept_cpus m smt t)"
    show "cpu_online ?fs c"
    proof (cases "c = 0")
      case True
      then show ?thesis by (simp add: cpu_online_def)
    next
      case False
      with c disj have "c \<notin> set (parked_cpus m smt t)" by auto
      with run_parking_success(1)[OF ok] c show ?thesis by simp
    qed
  qed
  have off: "\<forall>c \<in> set (parked_cpus m smt t). c \<noteq> 0 \<longrightarrow> cpu_offline ?fs c"
    by (rule run_parking_success(2)[OF ok])
  have 1: "online_siblings_loop (kept_cpus m smt t) True ?fs = (True, ?fs)"
    using on by (rule online_siblings_loop_noop)
  have 2: "offline_siblings_loop (parked_cpus m smt t) True ?fs = (True, ?fs)"
    using off by (rule offline_siblings_loop_noop)
  show ?thesis
    by (subst run_parking_def) (simp add: 1 2)
qed

lemma bring_online_loop_touches:
  "touches_only (hotplug_files UNIV) fs (snd (bring_online_loop cpus orig acc fs))"
proof (induction cpus arbitrary: acc fs)
  case Nil
  then show ?case by (simp add: touches_only_refl)
next
  case (Cons c cpus)
  have w: "c \<noteq> 0 \<Longrightarrow> touches_only (hotplug_files UNIV) fs (snd (write_text (CpuOnline c) ''1'' fs))"
    by (rule write_text_touches) (simp add: hotplug_files_def)
  show ?case
    using Cons.IH touches_only_trans[OF w Cons.IH]
    by (cases "c = 0") (simp_all add: case_prod_unfold Let_def)
qed

lemma bring_online_loop_nonzero:
  "0 \<notin> set acc \<Longrightarrow> 0 \<notin> set (fst (bring_online_loop cpus orig acc fs))"
  by (induction cpus arbitrary: acc fs) (simp_all add: case_prod_unfold Let_def)

lemma restore_loop_touches:
  "0 \<notin> set l \<Longrightarrow> touches_only (hotplug_files UNIV) fs (restore_loop l orig fs)"
proof (induction l arbitrary: fs)
  case Nil
  then show ?case by (simp add: touches_only_refl)
next
  case (Cons c l)
  then have nz: "c \<noteq> 0" and rest: "0 \<notin> set l" by auto
  have w: "touches_only (hotplug_files UNIV) fs (snd (write_text (CpuOnline c) ''0'' fs))"
    using nz by (intro write_text_touches) (simp add: hotplug_files_def)
  show ?case
    using Cons.IH[OF rest] touches_only_trans[OF w Cons.IH[OF rest]]
    by simp
qed

lemma initialize_touches:
  "touches_only (hotplug_files UNIV) fs (snd (initialize_cpu_topology m fs))"
proof (cases "topology_initialized m")
  case True
  then show ?thesis by (simp add: init_idem touches_only_refl)
next
  case False
  let ?orig = "case read_cpu_list fs CpuOnlineList of None \<Rightarrow> [0] | Some cpus \<Rightarrow> cpus"
  let ?b = "bring_online_loop (possible_cpus m) ?orig [] fs"
  have a: "touches_only (hotplug_files UNIV) fs (snd ?b)" by (rule bring_online_loop_touches)
  have "0 \<notin> set (fst ?b)" by (rule bring_online_loop_nonzero) simp
  then have b: "touches_only (hotplug_files UNIV) (snd ?b) (restore_loop (fst ?b) ?orig (snd ?b))"
    by (rule restore_loop_touches)
  show ?thesis
    using False touches_only_trans[OF a b]
    by (simp add: initialize_cpu_topology_def case_prod_unfold Let_def)
qed

lemma initialize_initialized:
  "topology_initialized (fst (initialize_cpu_topology m fs))"
  by (simp add: initialize_cpu_topology_def case_prod_unfold Let_def)

lemma touches_only_leaves_cpu0:
  assumes "touches_only S fs fs'" "CpuOnline 0 \<notin> S"
  shows "leaves_cpu0 fs fs'"
proof -
  from assms(1) obtain l where l: "wlog fs' = wlog fs @ l" "fst ` set l \<subseteq> S"
    by (rule touches_only_log)
  then have "CpuOnline 0 \<notin> fst ` set l" using assms(2) by auto
  with l(1) have "\<exists>l. wlog fs' = wlog fs @ l \<and> CpuOnline 0 \<notin> fst ` set l" by blast
  then show ?thesis
    using touches_only_files[OF assms] by (simp add: leaves_cpu0_def)
qed

lemma ensure_initialized: "topology_initialized (fst (ensure_topology m fs))"
  by (simp add: ensure_topology_def initialize_initialized)

lemma ensure_touches: "touches_only parking_files fs (snd (ensure_topology m fs))"
proof -
  have "touches_only (hotplug_files UNIV) fs (snd (ensure_topology m fs))"
    by (simp add: ensure_topology_def initialize_touches touches_only_refl)
  then show ?thesis
    by (rule touches_only_mono) (simp add: parking_files_def)
qed

lemma get_primary_ensure:
  "get_primary_cpus_by_physical_core m fs =
     (primaries (fst (ensure_topology m fs)), fst (ensure_topology m fs),
      snd (ensure_topology m fs))"
  by (simp add: get_primary_cpus_by_physical_core_def ensure_topology_def primaries_def
        case_prod_unfold split: option.splits)

lemma get_cpu_siblings_ensure:
  "get_cpu_siblings m fs c =
     (siblings_of (fst (ensure_topology m fs)) c, fst (ensure_topology m fs),
      snd (ensure_topology m fs))"
  by (simp add: get_cpu_siblings_def ensure_topology_def siblings_of_def
        case_prod_unfold split: option.splits)

lemma set_cpu_cores_ensure:
  "set_cpu_cores_with_cstate_optimization m tc fs =
     set_cpu_cores_with_cstate_optimization (fst (ensure_topology m fs)) tc
       (snd (ensure_topology m fs))"
proof -
  let ?m0 = "fst (ensure_topology m fs)" and ?fs0 = "snd (ensure_topology m fs)"
  have "get_primary_cpus_by_physical_core ?m0 ?fs0 = (primaries ?m0, ?m0, ?fs0)"
    by (rule get_primary_init[OF ensure_initialized])
  then show ?thesis
    by (simp add: set_cpu_cores_with_cstate_optimization_def get_primary_ensure)
qed

lemma set_cpu_cores_touches:
  "touches_only parking_files fs (snd (snd (set_cpu_cores_with_cstate_optimization m tc fs)))"
proof -
  let ?m0 = "fst (ensure_topology m fs)" and ?fs0 = "snd (ensure_topology m fs)"
  have "touches_only parking_files ?fs0
          (snd (snd (set_cpu_cores_with_cstate_optimization ?m0 tc ?fs0)))"
    by (simp add: set_cpu_cores_flat[OF ensure_initialized] run_parking_touches)
  from touches_only_trans[OF ensure_touches this] show ?thesis
    by (simp add: set_cpu_cores_ensure[of m tc fs])
qed

lemma offline_physical_core_touches:
  "touches_only parking_files fs (snd (snd (offline_physical_core m fs p)))"
proof -
  let ?m0 = "fst (ensure_topology m fs)" and ?fs0 = "snd (ensure_topology m fs)"
  have "touches_only parking_files ?fs0
          (snd (offline_siblings_loop (siblings_of ?m0 p) True ?fs0))"
    by (rule touches_only_mono[OF offline_siblings_loop_touches])
       (auto simp: parking_files_def hotplug_files_def)
  from touches_only_trans[OF ensure_touches this] show ?thesis
    by (simp add: offline_physical_core_def get_cpu_siblings_ensure case_prod_unfold Let_def)
qed

text \<open>
  C1. \<^verbatim>\<open>offline_cpu_with_cstate_prep(0)\<close> returns false and leaves the tree untouched; the
  sibling loop of \<^verbatim>\<open>offline_physical_core\<close> passes over CPU 0; the parking loop passes over
  a core whose primary CPU is 0; and for every manager, initialised or not, every target
  count and every tree, neither \<^verbatim>\<open>offline_physical_core\<close> nor
  \<^verbatim>\<open>set_cpu_cores_with_cstate_optimization\<close> attempts a write to the \<^verbatim>\<open>online\<close> file of
  CPU 0, the writes of the topology discovery they may trigger included.
\<close>

theorem cpu0_never_offlined:
  "offline_cpu_with_cstate_prep 0 target_cstate fs = (False, fs)
   \<and> offline_siblings_loop (0 # rest) success fs = offline_siblings_loop rest success fs
   \<and> (primary_cpus ! i = 0 \<longrightarrow>
        offline_cores_loop primary_cpus smt_enabled (i # idx) success m fs
          = offline_cores_loop primary_cpus smt_enabled idx success m fs)
   \<and> leaves_cpu0 fs (snd (snd (offline_physical_core m fs primary_cpu)))
   \<and> leaves_cpu0 fs (snd (snd (set_cpu_cores_with_cstate_optimization m target_cores fs)))"
  using touches_only_leaves_cpu0[OF offline_physical_core_touches cpu0_not_parking]
    touches_only_leaves_cpu0[OF set_cpu_cores_touches cpu0_not_parking]
  by (simp add: offline_cpu_zero)

lemma update_online_cpus_fields [simp]:
  "primaries (update_online_cpus m fs) = primaries m"
  "siblings_of (update_online_cpus m fs) = siblings_of m"
  "topology_initialized (update_online_cpus m fs) = topology_initialized m"
  "update_online_cpus (update_online_cpus m fs) fs = update_online_cpus m fs"
  by (simp_all add: update_online_cpus_def primaries_def siblings_of_def fun_eq_iff)

lemma update_online_cpus_core [simp]:
  "core_cpus (update_online_cpus m fs) = core_cpus m"
  by (simp add: core_cpus_def fun_eq_iff)

lemma update_online_cpus_lists [simp]:
  "kept_cpus (update_online_cpus m fs) = kept_cpus m"
  "parked_cpus (update_online_cpus m fs) = parked_cpus m"
  by (simp_all add: kept_cpus_def parked_cpus_def fun_eq_iff)

lemma update_online_cpus_parking [simp]:
  "run_parking (update_online_cpus m fs) = run_parking m"
  by (simp add: run_parking_def fun_eq_iff)

lemma is_smt_enabled_cong:
  assumes "topology_initialized m" "read_text fs' SmtActive = read_text fs SmtActive"
  shows "fst (is_smt_enabled (update_online_cpus m x) fs') = fst (is_smt_enabled m fs)"
  using assms
  by (simp add: is_smt_enabled_def update_online_cpus_def split: option.splits)

lemma topology_ok_zero_kept:
  assumes ok: "topology_ok m smt" and t: "1 \<le> t"
  shows "0 \<notin> set (drop t (primaries m))"
proof
  assume z: "0 \<in> set (drop t (primaries m))"
  then obtain j where j: "j < length (drop t (primaries m))" "drop t (primaries m) ! j = 0"
    by (auto simp: in_set_conv_nth)
  then have idx: "t + j < length (primaries m)" "primaries m ! (t + j) = 0" by auto
  from ok have s: "sorted (primaries m)" and d: "distinct (primaries m)"
    by (simp_all add: topology_ok_def)
  have "primaries m ! 0 \<le> primaries m ! (t + j)"
    using s idx(1) by (simp add: sorted_iff_nth_mono)
  then have "primaries m ! 0 = primaries m ! (t + j)" using idx(2) by simp
  moreover have "0 < length (primaries m)" by (simp add: primaries_nonempty)
  ultimately have "0 = t + j"
    using d idx(1) nth_eq_iff_index_eq[of "primaries m" 0 "t + j"] by simp
  with t show False by simp
qed

lemma topology_ok_disjoint:
  assumes ok: "topology_ok m smt"
  shows "set (kept_cpus m smt t) \<inter> set (parked_cpus m smt t) = {}"
proof (rule ccontr)
  assume "set (kept_cpus m smt t) \<inter> set (parked_cpus m smt t) \<noteq> {}"
  then obtain c where "c \<in> set (kept_cpus m smt t)" "c \<in> set (parked_cpus m smt t)" by auto
  then obtain p q where p: "p \<in> set (take t (primaries m))" "c \<in> set (core_cpus m smt p)"
    and q: "q \<in> set (drop t (primaries m))" "c \<in> set (core_cpus m smt q)"
    by (auto simp: kept_cpus_def parked_cpus_def)
  have pin: "p \<in> set (primaries m)" using p(1) by (rule in_set_takeD)
  have qin: "q \<in> set (primaries m)" using q(1) by (rule in_set_dropD)
  have "distinct (take t (primaries m) @ drop t (primaries m))"
    using ok by (simp add: topology_ok_def)
  then have "p \<noteq> q" using p(1) q(1) by (auto simp del: append_take_drop_id)
  then have "set (core_cpus m smt p) \<inter> set (core_cpus m smt q) = {}"
    using ok pin qin by (simp add: topology_ok_def)
  with p(2) q(2) show False by auto
qed

lemma topology_ok_zero_parked:
  assumes ok: "topology_ok m smt"
  shows "0 \<notin> set (parked_cpus m smt t)"
proof
  assume "0 \<in> set (parked_cpus m smt t)"
  then obtain q where q: "q \<in> set (drop t (primaries m))" "q \<noteq> 0" "0 \<in> set (core_cpus m smt q)"
    by (auto simp: parked_cpus_def)
  have "q \<in> set (primaries m)" using q(1) by (rule in_set_dropD)
  with ok q(3) have "q = 0" by (simp add: topology_ok_def)
  with q(2) show False by simp
qed

lemma smt_not_parking [simp]: "SmtActive \<notin> parking_files"
  by (simp add: parking_files_def hotplug_files_def prep_files_def)

lemma set_cpu_cores_result:
  assumes run: "set_cpu_cores_with_cstate_optimization m tc fs = (ok, m', fs')"
  shows "topology_initialized m'"
    and "update_online_cpus m' fs' = m'"
    and "\<exists>fs0. touches_only parking_files fs fs0 \<and>
           run_parking m' (fst (is_smt_enabled m' fs'))
             (clamp_target tc (length (primaries m'))) fs0 = (ok, fs')"
proof -
  let ?m0 = "fst (ensure_topology m fs)" and ?fs0 = "snd (ensure_topology m fs)"
  let ?smt = "fst (is_smt_enabled ?m0 ?fs0)"
  let ?t = "clamp_target tc (length (primaries ?m0))"
  let ?r = "run_parking ?m0 ?smt ?t ?fs0"
  have init: "topology_initialized ?m0" by (rule ensure_initialized)
  have flat: "set_cpu_cores_with_cstate_optimization m tc fs =
          (fst ?r, update_online_cpus ?m0 (snd ?r), snd ?r)"
    by (simp add: set_cpu_cores_ensure[of m tc fs] set_cpu_cores_flat[OF init])
  have eq: "(ok, m', fs') = (fst ?r, update_online_cpus ?m0 (snd ?r), snd ?r)"
    by (rule trans[OF run[symmetric] flat])
  have fs': "fs' = snd ?r" using eq by (elim Pair_inject)
  have ok: "ok = fst ?r" using eq by (elim Pair_inject)
  have m'0: "m' = update_online_cpus ?m0 (snd ?r)" using eq by (elim Pair_inject)
  have m': "m' = update_online_cpus ?m0 fs'" unfolding fs' by (rule m'0)
  show "topology_initialized m'" by (simp add: m' init)
  show "update_online_cpus m' fs' = m'" by (simp add: m')
  have "touches_only parking_files ?fs0 fs'" unfolding fs' by (rule run_parking_touches)
  then have "read_text fs' SmtActive = read_text ?fs0 SmtActive"
    by (rule touches_only_read_text) simp
  then have smt: "fst (is_smt_enabled m' fs') = ?smt"
    unfolding m' by (rule is_smt_enabled_cong[OF init])
  have a: "run_parking m' ?smt (clamp_target tc (length (primaries m'))) ?fs0 = (ok, fs')"
    by (subst m', subst m') (simp add: ok fs')
  have "run_parking m' (fst (is_smt_enabled m' fs')) (clamp_target tc (length (primaries m'))) ?fs0
          = (ok, fs')"
    unfolding smt by (rule a)
  with ensure_touches[of fs m]
  show "\<exists>fs0. touches_only parking_files fs fs0 \<and>
           run_parking m' (fst (is_smt_enabled m' fs'))
             (clamp_target tc (length (primaries m'))) fs0 = (ok, fs')"
    by blast
qed

lemma cpu_offline_not_online: "cpu_offline fs c \<Longrightarrow> \<not> cpu_online fs c"
  by (auto simp: cpu_offline_def cpu_online_def split: option.splits)

lemma parking_reaches_target_aux:
  assumes run: "set_cpu_cores_with_cstate_optimization m target_cores fs = (True, m', fs')"
    and ok: "topology_ok m' smt"
    and smt: "smt = fst (is_smt_enabled m' fs')"
    and t: "t = clamp_target target_cores (length (primaries m'))"
  shows "1 \<le> t \<and> t \<le> length (primaries m')
       \<and> (1 \<le> target_cores \<and> target_cores \<le> int (length (primaries m')) \<longrightarrow> int t = target_cores)
       \<and> (\<forall>p \<in> set (take t (primaries m')). core_online fs' m' smt p)
       \<and> (\<forall>p \<in> set (drop t (primaries m')). core_offline fs' m' smt p)
       \<and> filter (core_online fs' m' smt) (primaries m') = take t (primaries m')"
proof -
  from set_cpu_cores_result(3)[OF run] obtain fs0
    where r: "run_parking m' smt t fs0 = (True, fs')" unfolding smt t by blast
  then have okr: "fst (run_parking m' smt t fs0)" and fs': "fs' = snd (run_parking m' smt t fs0)"
    by simp_all
  have n: "0 < length (primaries m')" by (simp add: primaries_nonempty)
  have tb: "1 \<le> t" "t \<le> length (primaries m')"
    using clamp_target_bounds[OF n, of target_cores] by (simp_all add: t)
  have tid: "1 \<le> target_cores \<and> target_cores \<le> int (length (primaries m')) \<longrightarrow> int t = target_cores"
    by (auto simp: t clamp_target_id)
  have disj: "set (kept_cpus m' smt t) \<inter> set (parked_cpus m' smt t) = {}"
    by (rule topology_ok_disjoint[OF ok])
  have on: "core_online fs' m' smt p" if "p \<in> set (take t (primaries m'))" for p
    unfolding core_online_def
  proof
    fix c assume "c \<in> set (core_cpus m' smt p)"
    then have k: "c \<in> set (kept_cpus m' smt t)" using that by (auto simp: kept_cpus_def)
    then have "c \<notin> set (parked_cpus m' smt t)" using disj by auto
    with run_parking_success(1)[OF okr] k show "cpu_online fs' c" by (simp add: fs')
  qed
  have z: "0 \<notin> set (drop t (primaries m'))" by (rule topology_ok_zero_kept[OF ok tb(1)])
  have off: "core_offline fs' m' smt p" if "p \<in> set (drop t (primaries m'))" for p
    unfolding core_offline_def
  proof
    fix c assume c: "c \<in> set (core_cpus m' smt p)"
    have "p \<noteq> 0" using that z by (cases "p = 0") simp_all
    then have k: "c \<in> set (parked_cpus m' smt t)" using that c by (auto simp: parked_cpus_def)
    note k = this
    have "c \<noteq> 0"
    proof
      assume "c = 0"
      with k have "0 \<in> set (parked_cpus m' smt t)" by simp
      with topology_ok_zero_parked[OF ok, of t] show False by simp
    qed
    with run_parking_success(2)[OF okr] k show "cpu_offline fs' c" by (simp add: fs')
  qed
  have noton: "\<not> core_online fs' m' smt p" if "p \<in> set (drop t (primaries m'))" for p
  proof -
    have "p \<in> set (primaries m')" using that by (rule in_set_dropD)
    then have "p \<in> set (core_cpus m' smt p)" using ok by (simp add: topology_ok_def)
    with off[OF that] have "cpu_offline fs' p" by (simp add: core_offline_def)
    then have "\<not> cpu_online fs' p" by (rule cpu_offline_not_online)
    with \<open>p \<in> set (core_cpus m' smt p)\<close> show ?thesis by (auto simp: core_online_def)
  qed
  have "filter (core_online fs' m' smt) (take t (primaries m') @ drop t (primaries m'))
          = take t (primaries m')"
    using on noton by (simp del: append_take_drop_id add: filter_id_conv filter_empty_conv)
  then have f: "filter (core_online fs' m' smt) (primaries m') = take t (primaries m')" by simp
  show ?thesis using tb tid on off f by simp
qed

end
